theory Spec2Isabelle
  imports Main "HOL-Library.Multiset" "HOL-Library.Product_Lexorder"
begin

section \<open>Thrown values\<close>

text \<open>
  The program is TypeScript running on Node. Everything it throws or catches is a value of
  type \<open>thrown\<close>:
  \<^item> \<open>Error e\<close> is an instance of the class Error; the record \<open>e\<close> holds the properties
    the program reads or writes: \<open>message\<close>, \<open>code\<close> (set by Node on DNS errors, absent on a
    plain Error), \<open>errno\<close> (read by the earliest revision of getMXs only),
    \<open>response\<close> and \<open>responseCode\<close> (set by sendMessage on its own errors);
  \<^item> \<open>AggregateError es\<close> is what the built-in Promise.any rejects with when every input
    promise rejects: an instance of Error whose property \<open>errors\<close> lists the rejection
    reasons in input order, and which has no property \<open>code\<close>;
  \<^item> \<open>NonError v\<close> is a thrown value that is no instance of Error;
  \<^item> \<open>Cyclic v\<close> is the value \<open>v\<close> with, in addition, an enumerable property of its own
    whose value contains a cycle, as the peer certificate on the error Node raises for a
    certificate that does not match the host: \<open>JSON.stringify\<close> throws on it.
  A function that may throw returns \<open>thrown + 'a\<close>, with \<open>Inl\<close> for the throw.
\<close>

record js_error =
  message :: string
  code :: "string option"
  errno :: "string option"
  response :: "string option"
  responseCode :: "int option"

datatype thrown =
    Error js_error
  | AggregateError "thrown list"
  | NonError string
  | Cyclic thrown

text \<open>\<open>new Error(msg)\<close>: only the message is set.\<close>

definition new_Error :: "string \<Rightarrow> js_error" where
  "new_Error msg =
     \<lparr>message = msg, code = None, errno = None, response = None, responseCode = None\<rparr>"

text \<open>\<open>instanceOfNodeError(value, Error)\<close> is \<open>value instanceof Error\<close>.\<close>

fun instanceOfNodeError :: "thrown \<Rightarrow> bool" where
  "instanceOfNodeError (Error e) = True"
| "instanceOfNodeError (AggregateError es) = True"
| "instanceOfNodeError (NonError v) = False"
| "instanceOfNodeError (Cyclic v) = instanceOfNodeError v"

text \<open>The property read \<open>err.code\<close>; \<open>None\<close> is JavaScript's undefined.\<close>

fun err_code :: "thrown \<Rightarrow> string option" where
  "err_code (Error e) = code e"
| "err_code (AggregateError es) = None"
| "err_code (NonError v) = None"
| "err_code (Cyclic v) = err_code v"

section \<open>The DNS resolver and Promise.any\<close>

text \<open>
  The three lookups of \<open>dns.promises\<close> the program awaits. Each settles either with a list
  (fulfilled) or with a reason (rejected). The answers of the resolver are taken as they are
  during one call of the program.
\<close>

record mx_record =
  priority :: int
  exchange :: string

record dns =
  resolveMx :: "string \<Rightarrow> thrown + mx_record list"
  resolve4 :: "string \<Rightarrow> thrown + string list"
  resolve6 :: "string \<Rightarrow> thrown + string list"

text \<open>
  \<open>await Promise.any(ps)\<close> on settled promises: the value of a fulfilled one if there is
  one, otherwise the throw of an AggregateError holding every rejection reason in the order
  of \<open>ps\<close>.
\<close>

fun rejections :: "(thrown + 'a) list \<Rightarrow> thrown list" where
  "rejections [] = []"
| "rejections (Inl e # ps) = e # rejections ps"
| "rejections (Inr v # ps) = rejections ps"

fun first_fulfilled :: "(thrown + 'a) list \<Rightarrow> 'a option" where
  "first_fulfilled [] = None"
| "first_fulfilled (Inl e # ps) = first_fulfilled ps"
| "first_fulfilled (Inr v # ps) = Some v"

definition Promise_any :: "(thrown + 'a) list \<Rightarrow> thrown + 'a" where
  "Promise_any ps =
     (case first_fulfilled ps of
        Some v \<Rightarrow> Inr v
      | None \<Rightarrow> Inl (AggregateError (rejections ps)))"

section \<open>The domain resolver: implicitMX and getMXs\<close>

definition implicitMX :: "dns \<Rightarrow> string \<Rightarrow> thrown + mx_record list" where
  "implicitMX d domain =
     (case Promise_any [resolve4 d domain, resolve6 d domain] of
        Inr _ \<Rightarrow> Inr [\<lparr>priority = 0, exchange = domain\<rparr>]
      | Inl err \<Rightarrow>
          if instanceOfNodeError err then
            if err_code err = Some ''ENODATA'' \<or> err_code err = Some ''ENOTFOUND''
            then Inr []
            else Inl err
          else Inl err)"

text \<open>
  \<open>_.sortBy(mx, ["priority", Math.random])\<close>: lodash computes for the element at index \<open>i\<close>
  the criteria \<open>[mx[i].priority, Math.random()]\<close>, one call of Math.random for each
  element, and sorts ascending by the criteria compared left to right, elements with equal
  criteria staying in index order. The numbers Math.random returns are a parameter: \<open>rnd i\<close>
  is the number drawn for the element at index \<open>i\<close>, of any linearly ordered type.
  \<open>sort_key\<close> is a stable sort.
\<close>

definition criteria :: "(nat \<Rightarrow> 'r) \<Rightarrow> nat \<times> mx_record \<Rightarrow> (int \<times> 'r) \<times> mx_record" where
  "criteria rnd = (\<lambda>(i, m). ((priority m, rnd i), m))"

definition sortBy :: "(nat \<Rightarrow> 'r::linorder) \<Rightarrow> mx_record list \<Rightarrow> mx_record list" where
  "sortBy rnd mx = map snd (sort_key fst (map (criteria rnd) (enumerate 0 mx)))"

text \<open>
  getMXs: the body of the try block first, then the catch clause, which also sees a throw of
  the call of implicitMX that stands inside the try block.
\<close>

definition getMXs_try :: "(nat \<Rightarrow> 'r::linorder) \<Rightarrow> dns \<Rightarrow> string \<Rightarrow> thrown + mx_record list" where
  "getMXs_try rnd d domain =
     (case resolveMx d domain of
        Inl err \<Rightarrow> Inl err
      | Inr mx \<Rightarrow> if length mx = 0 then implicitMX d domain else Inr (sortBy rnd mx))"

definition getMXs :: "(nat \<Rightarrow> 'r::linorder) \<Rightarrow> dns \<Rightarrow> string \<Rightarrow> thrown + mx_record list" where
  "getMXs rnd d domain =
     (case getMXs_try rnd d domain of
        Inr route \<Rightarrow> Inr route
      | Inl err \<Rightarrow>
          if instanceOfNodeError err then
            if err_code err = Some ''ENODATA'' \<or> err_code err = Some ''ENOTFOUND''
            then implicitMX d domain
            else Inl err
          else Inl err)"

text \<open>
  getMXs as the earliest revision of the program has it (the file with
  sendOutgoingEmail): it sorts whatever the MX lookup returns, answers a failure of both
  address lookups with the empty route whatever the failure is, and returns the empty
  route when the property \<open>errno\<close> of the MX lookup's error is \<open>ETIMEOUT\<close>. It reads the
  properties of the caught value without testing its class.
\<close>

fun err_errno :: "thrown \<Rightarrow> string option" where
  "err_errno (Error e) = errno e"
| "err_errno (AggregateError es) = None"
| "err_errno (NonError v) = None"
| "err_errno (Cyclic v) = err_errno v"

definition getMXs_outgoing :: "(nat \<Rightarrow> 'r::linorder) \<Rightarrow> dns \<Rightarrow> string \<Rightarrow> thrown + mx_record list" where
  "getMXs_outgoing rnd d domain =
     (case resolveMx d domain of
        Inr mx \<Rightarrow> Inr (sortBy rnd mx)
      | Inl e \<Rightarrow>
          if err_code e = Some ''ENODATA'' \<or> err_code e = Some ''ENOTFOUND'' then
            (case Promise_any [resolve4 d domain, resolve6 d domain] of
               Inr _ \<Rightarrow> Inr [\<lparr>priority = 0, exchange = domain\<rparr>]
             | Inl _ \<Rightarrow> Inr [])
          else if err_errno e = Some ''ETIMEOUT'' then Inr []
          else Inl e)"

section \<open>Strings and the regular expressions of the address classifier\<close>

text \<open>
  \<open>s.split(".")\<close> with a one-character separator: the pieces between the separators, one
  more than there are separators (\<open>"".split(".")\<close> is \<open>[""]\<close>).
\<close>

fun split_on :: "char \<Rightarrow> string \<Rightarrow> string list" where
  "split_on sep [] = [[]]"
| "split_on sep (c # cs) =
     (if c = sep then [] # split_on sep cs
      else (case split_on sep cs of
              w # ws \<Rightarrow> (c # w) # ws
            | [] \<Rightarrow> [[c]]))"

definition is_digit :: "char \<Rightarrow> bool" where
  "is_digit c = (c \<in> set ''0123456789'')"

text \<open>\<open>Number(s)\<close> for a string of decimal digits.\<close>

definition digit_value :: "char \<Rightarrow> nat" where
  "digit_value c = of_char c - 48"

definition Number :: "string \<Rightarrow> nat" where
  "Number s = foldl (\<lambda>n c. 10 * n + digit_value c) 0 s"

text \<open>\<open>toLowerCase\<close> on the letters A to Z; every other character is kept.\<close>

definition lower_char :: "char \<Rightarrow> char" where
  "lower_char c =
     (case map_of (zip ''ABCDEFGHIJKLMNOPQRSTUVWXYZ'' ''abcdefghijklmnopqrstuvwxyz'') c of
        Some l \<Rightarrow> l
      | None \<Rightarrow> c)"

definition toLowerCase :: "string \<Rightarrow> string" where
  "toLowerCase s = map lower_char s"

definition startsWith :: "string \<Rightarrow> string \<Rightarrow> bool" where
  "startsWith s p = (take (length p) s = p)"

text \<open>
  \<open>s.match(re)\<close> for a regular expression without the global flag returns the leftmost
  match: the matcher is tried at every position from the left, the end of the string
  included. \<open>at\<close> is the matcher at the start of a string.
\<close>

fun regex_first :: "(string \<Rightarrow> 'a option) \<Rightarrow> string \<Rightarrow> 'a option" where
  "regex_first at [] = at []"
| "regex_first at (c # cs) =
     (case at (c # cs) of
        Some m \<Rightarrow> Some m
      | None \<Rightarrow> regex_first at cs)"

text \<open>
  \<open>([^\]]*)\]\<close>: the captured text runs to the first \<open>]\<close>; there is no match when no
  \<open>]\<close> follows.
\<close>

fun until_bracket :: "string \<Rightarrow> string option" where
  "until_bracket [] = None"
| "until_bracket (c # cs) =
     (if c = CHR '']'' then Some [] else map_option ((#) c) (until_bracket cs))"

text \<open>
  The flag \<open>i\<close> compares letters without regard to case; \<open>[\<close>, \<open>6\<close> and \<open>:\<close> have no
  other case.
\<close>

definition ci_eq :: "string \<Rightarrow> string \<Rightarrow> bool" where
  "ci_eq a b = (map lower_char a = map lower_char b)"

text \<open>\<open>/\[IPv6:([^\]]*)\]/i\<close> and \<open>/\[([^\]]*)\]/\<close>, each giving its capture group 1.\<close>

definition m6_at :: "string \<Rightarrow> string option" where
  "m6_at s = (if ci_eq (take 6 s) ''[IPv6:'' then until_bracket (drop 6 s) else None)"

definition m4_at :: "string \<Rightarrow> string option" where
  "m4_at s = (case s of c # cs \<Rightarrow> if c = CHR ''['' then until_bracket cs else None | [] \<Rightarrow> None)"

text \<open>
  \<open>ipv4re = /(\d{1,3})\.(\d{1,3})\.(\d{1,3})\.(\d{1,3})/\<close>. \<open>\d{1,3}\<close> is greedy: it
  tries three digits, then two, then one, and the matcher backtracks into the shorter
  choices when the rest of the pattern fails. \<open>digits_1_3 s\<close> lists the choices in that
  order, each with the rest of the string; \<open>ipv4re_at s\<close> lists the matches at the start
  of \<open>s\<close> in the order backtracking finds them, as the four captured groups.
\<close>

definition digits_1_3 :: "string \<Rightarrow> (string \<times> string) list" where
  "digits_1_3 s = [(take n s, drop n s). n \<leftarrow> [3, 2, 1], n \<le> length s, list_all is_digit (take n s)]"

fun literal_dot :: "string \<Rightarrow> string list" where
  "literal_dot [] = []"
| "literal_dot (c # cs) = (if c = CHR ''.'' then [cs] else [])"

definition ipv4re_at :: "string \<Rightarrow> (string \<times> string \<times> string \<times> string) list" where
  "ipv4re_at s =
     [(a1, a2, a3, a4).
        (a1, r1) \<leftarrow> digits_1_3 s, s2 \<leftarrow> literal_dot r1,
        (a2, r2) \<leftarrow> digits_1_3 s2, s3 \<leftarrow> literal_dot r2,
        (a3, r3) \<leftarrow> digits_1_3 s3, s4 \<leftarrow> literal_dot r3,
        (a4, r4) \<leftarrow> digits_1_3 s4]"

definition ipv4re_match :: "string \<Rightarrow> (string \<times> string \<times> string \<times> string) option" where
  "ipv4re_match s = regex_first (\<lambda>t. case ipv4re_at t of m # _ \<Rightarrow> Some m | [] \<Rightarrow> None) s"

section \<open>The address classifier\<close>

definition addressFromLiteral :: "string \<Rightarrow> thrown + string" where
  "addressFromLiteral literal =
     (case regex_first m6_at literal of
        Some m6 \<Rightarrow> Inr m6
      | None \<Rightarrow>
          (case regex_first m4_at literal of
             Some m4 \<Rightarrow> Inr m4
           | None \<Rightarrow> Inl (Error (new_Error (literal @ '' is not an address literal'')))))"

text \<open>
  \<open>isIp.v4\<close> of the package is-ip tests the whole string against the dotted-decimal
  pattern of the package ip-regex: four octets joined by dots, an octet being
  \<open>25[0-5]|2[0-4]\d|1\d\d|[1-9]\d|\d\<close>, that is a decimal number from 0 to 255 written
  without a leading zero. \<open>isIp.v6\<close> is a parameter of the functions below.
\<close>

fun octet :: "string \<Rightarrow> bool" where
  "octet [a] = is_digit a"
| "octet [a, b] = (a \<in> set ''123456789'' \<and> is_digit b)"
| "octet [a, b, c] =
     ((a = CHR ''2'' \<and> b = CHR ''5'' \<and> c \<in> set ''012345'') \<or>
      (a = CHR ''2'' \<and> b \<in> set ''01234'' \<and> is_digit c) \<or>
      (a = CHR ''1'' \<and> is_digit b \<and> is_digit c))"
| "octet _ = False"

definition isIp_v4 :: "string \<Rightarrow> bool" where
  "isIp_v4 s =
     (case split_on (CHR ''.'') s of
        [a, b, c, d] \<Rightarrow> octet a \<and> octet b \<and> octet c \<and> octet d
      | _ \<Rightarrow> False)"

definition isLoopback :: "(string \<Rightarrow> bool) \<Rightarrow> string \<Rightarrow> thrown + bool" where
  "isLoopback isIp_v6 addr =
     (if isIp_v4 addr then
        (case ipv4re_match addr of
           None \<Rightarrow> Inl (Error (new_Error (addr @ '' not a valid IPv4 address'')))
         | Some (a1, a2, a3, a4) \<Rightarrow> Inr (a1 = ''127''))
      else if isIp_v6 addr then Inr (addr = ''::1'')
      else Inl (Error (new_Error (addr @ '' is not an IP address''))))"

definition isPrivate :: "(string \<Rightarrow> bool) \<Rightarrow> string \<Rightarrow> thrown + bool" where
  "isPrivate isIp_v6 addr =
     (if isIp_v4 addr then
        (case ipv4re_match addr of
           None \<Rightarrow> Inl (Error (new_Error (addr @ '' not a valid IPv4 address'')))
         | Some (a1, a2, a3, a4) \<Rightarrow>
             if a1 = ''10'' then Inr True
             else if a1 = ''172'' then (let oct = Number a2 in Inr (16 \<le> oct \<and> oct \<le> 31))
             else Inr (a1 = ''192'' \<and> a2 = ''168''))
      else if isIp_v6 addr then Inr (startsWith (toLowerCase addr) ''fd'')
      else Inl (Error (new_Error (addr @ '' is not an IP address''))))"

text \<open>
  The numbers of an address in dotted-decimal form: the decimal values of the pieces
  between its dots.
\<close>

definition ipv4_octets :: "string \<Rightarrow> nat list" where
  "ipv4_octets addr = map Number (split_on (CHR ''.'') addr)"

section \<open>The delivery orchestrator: sendMessage\<close>

text \<open>
  The address parser (the package smtp-address-parser) is a parameter: \<open>parse\<close> throws on
  text that is no mailbox and otherwise returns an object whose \<open>domainPart\<close> has the
  property \<open>AddressLiteral\<close> or the property \<open>DomainName\<close>; an absent property is \<open>None\<close>.
\<close>

record domain_part =
  AddressLiteral :: "string option"
  DomainName :: "string option"

record parsed =
  domainPart :: domain_part

type_synonym parser = "string \<Rightarrow> thrown + parsed"

text \<open>A string property in a condition: undefined and the empty string are falsy.\<close>

fun truthy :: "string option \<Rightarrow> bool" where
  "truthy None = False"
| "truthy (Some s) = (s \<noteq> [])"

record envelope =
  from_addr :: string
  to_addr :: string

type_synonym content = string

text \<open>
  The SMTP transport (nodemailer's SMTPConnection) is a parameter: for each host, what the
  connection to it does. connect or send calls back with an error, or the connection emits
  an error event while connect or send is pending, or both succeed and send calls back
  with the transport's acknowledgement, an object given here by its properties.
\<close>

type_synonym sent_info = "(string \<times> string) list"

datatype attempt =
    Connect_error thrown
  | Connect_socket_error thrown
  | Send_error thrown
  | Send_socket_error thrown
  | Send_ok sent_info

type_synonym smtp = "string \<Rightarrow> attempt"

fun attempt_error :: "attempt \<Rightarrow> thrown option" where
  "attempt_error (Connect_error e) = Some e"
| "attempt_error (Connect_socket_error e) = Some e"
| "attempt_error (Send_error e) = Some e"
| "attempt_error (Send_socket_error e) = Some e"
| "attempt_error (Send_ok info) = None"

text \<open>The value sendMessage returns: \<open>{ ...sent, host }\<close>.\<close>

record delivery =
  sent :: sent_info
  host :: string

text \<open>
  What sendMessage does to the outside, in order: the call of getMXs (every DNS query of
  sendMessage is made inside it), the construction of a connection for a host under a
  client name, connect, send and quit on the connection of a host, and the calls of the
  logger. The logger gets a fixed text, the text \<open>Captured a socket error!\<close> followed by
  an error, or \<open>JSON.stringify\<close> of an error.
\<close>

datatype log_text =
    Text string
  | Captured thrown
  | Stringified thrown

datatype event =
    GetMXs string
  | New_SMTPConnection string string
  | Connect string
  | Send string envelope content
  | Quit string
  | Logger_debug log_text
  | Logger_error log_text

text \<open>
  The four statements \<open>var err = new Error(msg); err.response = resp;
  err.responseCode = 500; throw err\<close> throw this value.
\<close>

definition response_error :: "string \<Rightarrow> string \<Rightarrow> thrown" where
  "response_error msg resp =
     Error ((new_Error msg)\<lparr>response := Some resp, responseCode := Some 500\<rparr>)"

text \<open>
  \<open>await wrapErrorEvent(connection, async () => { ... }, logger)\<close> for the connection to
  \<open>h\<close>: the events, and the result or the throw of the await.
\<close>

fun wrapErrorEvent :: "attempt \<Rightarrow> string \<Rightarrow> envelope \<Rightarrow> content \<Rightarrow> event list \<times> (thrown + delivery)" where
  "wrapErrorEvent (Connect_error e) h env c =
     ([Logger_debug (Text (''About to connect to host '' @ h)), Connect h], Inl e)"
| "wrapErrorEvent (Connect_socket_error e) h env c =
     ([Logger_debug (Text (''About to connect to host '' @ h)), Connect h,
       Logger_error (Captured e)], Inl e)"
| "wrapErrorEvent (Send_error e) h env c =
     ([Logger_debug (Text (''About to connect to host '' @ h)), Connect h,
       Logger_debug (Text (''Connected, about to send a message from '' @ from_addr env
                            @ '' to '' @ to_addr env)),
       Send h env c], Inl e)"
| "wrapErrorEvent (Send_socket_error e) h env c =
     ([Logger_debug (Text (''About to connect to host '' @ h)), Connect h,
       Logger_debug (Text (''Connected, about to send a message from '' @ from_addr env
                            @ '' to '' @ to_addr env)),
       Send h env c, Logger_error (Captured e)], Inl e)"
| "wrapErrorEvent (Send_ok info) h env c =
     ([Logger_debug (Text (''About to connect to host '' @ h)), Connect h,
       Logger_debug (Text (''Connected, about to send a message from '' @ from_addr env
                            @ '' to '' @ to_addr env)),
       Send h env c, Logger_debug (Text ''Message sent successfuly'')],
      Inr \<lparr>sent = info, host = h\<rparr>)"

text \<open>
  A \<open>for (const x of xs)\<close> loop: the body completes normally, and the loop goes on with
  the next element, or it returns or throws, and the loop ends. The events of the
  iterations follow each other.
\<close>

datatype 'a completion =
    Normal
  | Return 'a
  | Throw thrown

fun for_of :: "('a \<Rightarrow> event list \<times> 'b completion) \<Rightarrow> 'a list \<Rightarrow> event list \<times> 'b completion" where
  "for_of body [] = ([], Normal)"
| "for_of body (x # xs) =
     (case body x of
        (ev, Normal) \<Rightarrow> (case for_of body xs of (ev', c) \<Rightarrow> (ev @ ev', c))
      | (ev, Return v) \<Rightarrow> (ev, Return v)
      | (ev, Throw e) \<Rightarrow> (ev, Throw e))"

text \<open>
  \<open>JSON.stringify(e)\<close> for a caught value: the text for the logger, or the throw of a
  TypeError when the value has a property with a cycle. The properties \<open>errors\<close> of an
  AggregateError and \<open>message\<close> of an Error are not enumerable and are not visited.
\<close>

fun serializable :: "thrown \<Rightarrow> bool" where
  "serializable (Cyclic v) = False"
| "serializable (Error e) = True"
| "serializable (AggregateError es) = True"
| "serializable (NonError v) = True"

definition JSON_stringify :: "thrown \<Rightarrow> thrown + log_text" where
  "JSON_stringify e =
     (if serializable e then Inr (Stringified e)
      else Inl (Error (new_Error ''Converting circular structure to JSON'')))"

text \<open>
  The body of the loop of sendMessage, for one record of the route. In the catch clause
  the argument of the logger is computed first: when \<open>JSON.stringify\<close> throws, the catch
  clause ends there, before the logger is called, before \<open>connection.quit()\<close> and before
  the error with the response code is made.
\<close>

definition sendMessage_body :: "smtp \<Rightarrow> string \<Rightarrow> envelope \<Rightarrow> content \<Rightarrow> mx_record \<Rightarrow> event list \<times> delivery completion" where
  "sendMessage_body transport name env c mxRecord =
     (let h = exchange mxRecord in
      case wrapErrorEvent (transport h) h env c of
        (ev, Inr result) \<Rightarrow>
          (New_SMTPConnection h name # ev @ [Quit h], Return result)
      | (ev, Inl e) \<Rightarrow>
          (case JSON_stringify e of
             Inl type_error \<Rightarrow> (New_SMTPConnection h name # ev, Throw type_error)
           | Inr text \<Rightarrow>
               (New_SMTPConnection h name # ev @ [Logger_error text, Quit h],
                Throw (response_error ''Delivery attempt failed''
                         ''Delivery attempt failed''))))"

text \<open>sendMessage from the statement after \<open>const mxRecords = await getMXs(...)\<close> on.\<close>

definition sendMessage_resolved :: "smtp \<Rightarrow> string \<Rightarrow> envelope \<Rightarrow> content \<Rightarrow> mx_record list \<Rightarrow> event list \<times> (thrown + delivery)" where
  "sendMessage_resolved transport name env c mxRecords =
     (if length mxRecords = 0 then
        ([], Inl (response_error ''No MX (or A or AAAA) record'' ''No MX or A or AAAA''))
      else if length mxRecords = 1 \<and> priority (mxRecords ! 0) = 0
              \<and> exchange (mxRecords ! 0) = [] then
        ([], Inl (response_error ''Null MX record'' ''Null MX''))
      else
        (case for_of (sendMessage_body transport name env c) mxRecords of
           (ev, Return result) \<Rightarrow> (ev, Inr result)
         | (ev, Throw e) \<Rightarrow> (ev, Inl e)
         | (ev, Normal) \<Rightarrow> (ev, Inl (Error (new_Error ''Could not deliver message.'')))))"

text \<open>
  sendMessage. The parse of the sender is only kept for its throw. A recipient whose
  \<open>domainPart\<close> has no \<open>DomainName\<close> makes \<open>DomainName.split\<close> throw a TypeError.
\<close>

definition sendMessage :: "parser \<Rightarrow> (nat \<Rightarrow> 'r::linorder) \<Rightarrow> dns \<Rightarrow> smtp \<Rightarrow> string \<Rightarrow> string \<Rightarrow> string \<Rightarrow> content \<Rightarrow> event list \<times> (thrown + delivery)" where
  "sendMessage parse rnd d transport name mailFrom rcptTo c =
     (case (if mailFrom \<noteq> ''<>'' then parse mailFrom
            else Inr \<lparr>domainPart = \<lparr>AddressLiteral = None, DomainName = None\<rparr>\<rparr>) of
        Inl e \<Rightarrow> ([], Inl e)
      | Inr from_parsed \<Rightarrow>
          (case parse rcptTo of
             Inl e \<Rightarrow> ([], Inl e)
           | Inr to_parsed \<Rightarrow>
               let env = \<lparr>from_addr = mailFrom, to_addr = rcptTo\<rparr> in
               if truthy (AddressLiteral (domainPart to_parsed)) then
                 ([], Inl (response_error ''Domain is an address literal''
                             ''Domain is an address literal''))
               else
                 (case DomainName (domainPart to_parsed) of
                    None \<Rightarrow>
                      ([], Inl (Error (new_Error ''Cannot read properties of undefined'')))
                  | Some dn \<Rightarrow>
                      if length (split_on (CHR ''.'') dn) < 2 then
                        ([], Inl (response_error ''Domain not fully qualified''
                                    ''Domain not fully qualified''))
                      else
                        (case getMXs rnd d dn of
                           Inl e \<Rightarrow> ([GetMXs dn], Inl e)
                         | Inr mxRecords \<Rightarrow>
                             (case sendMessage_resolved transport name env c mxRecords of
                                (ev, r) \<Rightarrow> (GetMXs dn # ev, r))))))"

text \<open>
  The loop of sendEmail, the function of the earlier revision of the program: its catch
  clause only logs, and the connection is closed after the try statement. Here too a
  throw of \<open>JSON.stringify\<close> ends the catch clause, and with it the loop.
\<close>

definition sendEmail_body :: "smtp \<Rightarrow> string \<Rightarrow> envelope \<Rightarrow> content \<Rightarrow> mx_record \<Rightarrow> event list \<times> delivery completion" where
  "sendEmail_body transport name env c mxRecord =
     (let h = exchange mxRecord in
      case wrapErrorEvent (transport h) h env c of
        (ev, Inr result) \<Rightarrow>
          (New_SMTPConnection h name # ev @ [Quit h], Return result)
      | (ev, Inl e) \<Rightarrow>
          (case JSON_stringify e of
             Inl type_error \<Rightarrow> (New_SMTPConnection h name # ev, Throw type_error)
           | Inr text \<Rightarrow>
               (New_SMTPConnection h name # ev @ [Logger_debug text, Quit h], Normal)))"

definition sendEmail_loop :: "smtp \<Rightarrow> string \<Rightarrow> envelope \<Rightarrow> content \<Rightarrow> mx_record list \<Rightarrow> event list \<times> (thrown + delivery)" where
  "sendEmail_loop transport name env c mxRecords =
     (case for_of (sendEmail_body transport name env c) mxRecords of
        (ev, Return result) \<Rightarrow> (ev, Inr result)
      | (ev, Throw e) \<Rightarrow> (ev, Inl e)
      | (ev, Normal) \<Rightarrow> (ev, Inl (Error (new_Error ''Could not deliver message.''))))"

section \<open>Inputs used in the examples\<close>

text \<open>
  The error Node's DNS module rejects a lookup with: an Error whose \<open>code\<close> is the name of
  the failure and whose message names the query and the host.
\<close>

definition dnsException :: "string \<Rightarrow> string \<Rightarrow> string \<Rightarrow> thrown" where
  "dnsException c syscall hostname =
     Error ((new_Error (syscall @ '' '' @ c @ '' '' @ hostname))\<lparr>code := Some c\<rparr>)"

text \<open>A resolver that gives the same three answers for every domain.\<close>

definition const_dns :: "thrown + mx_record list \<Rightarrow> thrown + string list \<Rightarrow> thrown + string list \<Rightarrow> dns" where
  "const_dns mx a4 a6 = \<lparr>resolveMx = (\<lambda>_. mx), resolve4 = (\<lambda>_. a4), resolve6 = (\<lambda>_. a6)\<rparr>"

text \<open>
  Two transports: on the first the connection to the host \<open>bad\<close> is refused and every
  other host accepts the message; on the second the connection to every host fails with
  the error \<open>e\<close>.
\<close>

definition refusing :: "string \<Rightarrow> smtp" where
  "refusing bad h =
     (if h = bad
      then Connect_socket_error (Error ((new_Error ''connect ECONNREFUSED'')\<lparr>code := Some ''ESOCKET''\<rparr>))
      else Send_ok [(''response'', ''250 2.0.0 Ok'')])"

definition failing_with :: "thrown \<Rightarrow> smtp" where
  "failing_with e h = Connect_error e"

text \<open>
  The error of a TLS connection whose certificate does not name the host: it holds the
  peer certificate, which refers to itself through its issuer.
\<close>

definition altname_error :: thrown where
  "altname_error =
     Cyclic (Error ((new_Error ''Hostname/IP does not match certificate's altnames'')
                      \<lparr>code := Some ''ERR_TLS_CERT_ALTNAME_INVALID''\<rparr>))"

text \<open>A parser that knows two mailboxes and throws on every other text.\<close>

definition parse_example :: parser where
  "parse_example s =
     (if s = ''postmaster@[192.0.2.1]'' then
        Inr \<lparr>domainPart = \<lparr>AddressLiteral = Some ''[192.0.2.1]'', DomainName = None\<rparr>\<rparr>
      else if s = ''root@localhost'' then
        Inr \<lparr>domainPart = \<lparr>AddressLiteral = None, DomainName = Some ''localhost''\<rparr>\<rparr>
      else Inl (Error (new_Error ''address parsing failed'')))"

text \<open>A stand-in for \<open>isIp.v6\<close> in the examples: the strings that contain a colon.\<close>

definition has_colon :: "string \<Rightarrow> bool" where
  "has_colon s = (CHR '':'' \<in> set s)"

section \<open>Properties of the domain resolver\<close>

lemma Promise_any_fulfilled:
  "(\<exists>v. Promise_any ps = Inr v) \<longleftrightarrow> (\<exists>v. Inr v \<in> set ps)"
proof (induction ps rule: first_fulfilled.induct)
  case 1
  show ?case by (simp add: Promise_any_def)
next
  case (2 e ps)
  then show ?case by (auto simp: Promise_any_def split: option.splits)
next
  case (3 v ps)
  show ?case by (auto simp: Promise_any_def)
qed

lemma implicitMX_address:
  assumes "(\<exists>as. resolve4 d domain = Inr as) \<or> (\<exists>as. resolve6 d domain = Inr as)"
  shows "implicitMX d domain = Inr [\<lparr>priority = 0, exchange = domain\<rparr>]"
  using assms
  by (cases "resolve4 d domain"; cases "resolve6 d domain")
     (auto simp: implicitMX_def Promise_any_def)

lemma implicitMX_rejected:
  assumes "resolve4 d domain = Inl e4" and "resolve6 d domain = Inl e6"
  shows "implicitMX d domain = Inl (AggregateError [e4, e6])"
  using assms by (simp add: implicitMX_def Promise_any_def)

lemma implicitMX_never_empty: "implicitMX d domain \<noteq> Inr []"
  by (cases "resolve4 d domain"; cases "resolve6 d domain")
     (simp_all add: implicitMX_def Promise_any_def)

lemma implicitMX_throw_is_aggregate:
  assumes "implicitMX d domain = Inl err"
  shows "\<exists>e4 e6. resolve4 d domain = Inl e4 \<and> resolve6 d domain = Inl e6
           \<and> err = AggregateError [e4, e6]"
  using assms
  by (cases "resolve4 d domain"; cases "resolve6 d domain")
     (auto simp: implicitMX_def Promise_any_def)

lemma map_snd_criteria: "map snd (map (criteria rnd) (enumerate n mx)) = mx"
  by (induction mx arbitrary: n) (simp_all add: criteria_def)

lemma mset_sortBy: "mset (sortBy rnd mx) = mset mx"
proof -
  have "mset (sortBy rnd mx) = image_mset snd (mset (map (criteria rnd) (enumerate 0 mx)))"
    unfolding sortBy_def by (simp only: mset_map mset_sort)
  also have "\<dots> = mset (map snd (map (criteria rnd) (enumerate 0 mx)))"
    by (simp only: mset_map)
  finally show ?thesis by (simp only: map_snd_criteria)
qed

lemma criteria_priority:
  "p \<in> set (map (criteria rnd) (enumerate n mx)) \<Longrightarrow> priority (snd p) = fst (fst p)"
  by (induction mx arbitrary: n) (auto simp: criteria_def)

lemma sorted_fst_lex:
  fixes ks :: "(int \<times> 'r::linorder) list"
  shows "sorted ks \<Longrightarrow> sorted (map fst ks)"
  by (induction ks) (auto simp: less_eq_prod_def)

lemma sorted_sortBy: "sorted (map priority (sortBy rnd mx))"
proof -
  let ?cs = "sort_key fst (map (criteria rnd) (enumerate 0 mx))"
  have "sorted (map fst ?cs)" by (rule sorted_sort_key)
  then have "sorted (map fst (map fst ?cs))" by (rule sorted_fst_lex)
  moreover have "map priority (map snd ?cs) = map fst (map fst ?cs)"
  proof -
    have "\<forall>p \<in> set ?cs. priority (snd p) = fst (fst p)"
      using criteria_priority [of _ rnd 0 mx] by (simp only: set_sort) blast
    then show ?thesis by simp
  qed
  ultimately show ?thesis unfolding sortBy_def by (simp only:)
qed

lemma getMXs_records:
  assumes "resolveMx d domain = Inr mx" and "mx \<noteq> []"
  shows "getMXs rnd d domain = Inr (sortBy rnd mx)"
  using assms by (simp add: getMXs_def getMXs_try_def)

lemma getMXs_no_records:
  assumes "resolveMx d domain = Inr []"
  shows "getMXs rnd d domain = implicitMX d domain"
proof (cases "implicitMX d domain")
  case (Inl err)
  then obtain e4 e6 where "err = AggregateError [e4, e6]"
    using implicitMX_throw_is_aggregate by blast
  with Inl assms show ?thesis by (simp add: getMXs_def getMXs_try_def)
next
  case (Inr route)
  with assms show ?thesis by (simp add: getMXs_def getMXs_try_def)
qed

lemma getMXs_no_data:
  assumes "resolveMx d domain = Inl err" and "instanceOfNodeError err"
    and "err_code err = Some ''ENODATA'' \<or> err_code err = Some ''ENOTFOUND''"
  shows "getMXs rnd d domain = implicitMX d domain"
  using assms by (auto simp: getMXs_def getMXs_try_def)

lemma getMXs_other_error:
  assumes "resolveMx d domain = Inl err"
    and "\<not> (instanceOfNodeError err
             \<and> (err_code err = Some ''ENODATA'' \<or> err_code err = Some ''ENOTFOUND''))"
  shows "getMXs rnd d domain = Inl err"
  using assms by (auto simp: getMXs_def getMXs_try_def)

lemma sortBy_pair_kept:
  "priority a = priority b \<Longrightarrow> sortBy (\<lambda>i. i) [a, b] = [a, b]"
  by (simp add: sortBy_def criteria_def less_eq_prod_def)

lemma sortBy_pair_swapped:
  "priority a = priority b \<Longrightarrow> sortBy (\<lambda>i. 1 - i) [a, b] = [b, a]"
  by (simp add: sortBy_def criteria_def less_eq_prod_def)

lemma getMXs_never_empty: "getMXs rnd d domain \<noteq> Inr []"
proof (cases "resolveMx d domain")
  case (Inl err)
  show ?thesis
  proof (cases "instanceOfNodeError err
      \<and> (err_code err = Some ''ENODATA'' \<or> err_code err = Some ''ENOTFOUND'')")
    case True
    with Inl have "getMXs rnd d domain = implicitMX d domain"
      using getMXs_no_data [of d domain err rnd] by blast
    then show ?thesis by (simp add: implicitMX_never_empty)
  next
    case False
    with Inl have "getMXs rnd d domain = Inl err"
      using getMXs_other_error [of d domain err rnd] by blast
    then show ?thesis by simp
  qed
next
  case (Inr mx)
  show ?thesis
  proof (cases "mx = []")
    case True
    with Inr have "getMXs rnd d domain = implicitMX d domain"
      by (simp add: getMXs_no_records)
    then show ?thesis by (simp add: implicitMX_never_empty)
  next
    case False
    with Inr have "getMXs rnd d domain = Inr (sortBy rnd mx)" by (rule getMXs_records)
    moreover have "sortBy rnd mx \<noteq> []"
      using False mset_sortBy [of rnd mx] by (metis mset_zero_iff)
    ultimately show ?thesis by simp
  qed
qed

lemma getMXs_outgoing_timeout:
  assumes "resolveMx d domain = Inl err" and "err_errno err = Some ''ETIMEOUT''"
    and "\<not> (err_code err = Some ''ENODATA'' \<or> err_code err = Some ''ENOTFOUND'')"
  shows "getMXs_outgoing rnd d domain = Inr []"
  using assms by (simp add: getMXs_outgoing_def)

text \<open>
  Claim C2, as the spec states it: when the MX lookup fails with a timeout error, getMXs
  returns an empty route and does not throw. The program does otherwise: the catch clause
  of getMXs rethrows every error whose code is neither ENODATA nor ENOTFOUND, the timeout
  included, as its comment says. Here the MX lookup of a domain times out, and getMXs
  throws the timeout error instead of returning the empty route. Only the earliest revision
  of getMXs returned the empty route on a timeout (\<open>getMXs_outgoing_timeout\<close>).
\<close>

theorem getMXs_timeout_is_thrown:
  "getMXs (\<lambda>i. i)
     (const_dns (Inl (dnsException ''ETIMEOUT'' ''queryMx'' ''slow.example'')) (Inr []) (Inr []))
     ''slow.example''
   = Inl (dnsException ''ETIMEOUT'' ''queryMx'' ''slow.example'')
   \<and> getMXs (\<lambda>i. i)
     (const_dns (Inl (dnsException ''ETIMEOUT'' ''queryMx'' ''slow.example'')) (Inr []) (Inr []))
     ''slow.example''
   \<noteq> Inr []"
  by (simp add: getMXs_def getMXs_try_def const_dns_def dnsException_def new_Error_def)

text \<open>
  Claim C2, amended: when the MX lookup fails with an error that is not a no-data or
  no-such-domain error of the class Error, a timeout error included, getMXs throws that
  error to its caller; when it fails with a no-data or no-such-domain error, getMXs does
  what implicitMX does for the domain.
\<close>

theorem getMXs_error_propagates:
  "(resolveMx d domain = Inl err
      \<and> \<not> (instanceOfNodeError err
             \<and> (err_code err = Some ''ENODATA'' \<or> err_code err = Some ''ENOTFOUND''))
      \<longrightarrow> getMXs rnd d domain = Inl err)
   \<and> (resolveMx d domain = Inl err
      \<and> instanceOfNodeError err
      \<and> (err_code err = Some ''ENODATA'' \<or> err_code err = Some ''ENOTFOUND'')
      \<longrightarrow> getMXs rnd d domain = implicitMX d domain)"
  using getMXs_other_error [of d domain err rnd] getMXs_no_data [of d domain err rnd]
  by blast

theorem getMXs_error_propagates_witness:
  "resolveMx (const_dns (Inl (dnsException ''ETIMEOUT'' ''queryMx'' ''example.net''))
                (Inr [''192.0.2.1'']) (Inr [])) ''example.net''
     = Inl (dnsException ''ETIMEOUT'' ''queryMx'' ''example.net'')
   \<and> err_code (dnsException ''ETIMEOUT'' ''queryMx'' ''example.net'') = Some ''ETIMEOUT''
   \<and> getMXs (\<lambda>i. i)
        (const_dns (Inl (dnsException ''ETIMEOUT'' ''queryMx'' ''example.net''))
                (Inr [''192.0.2.1'']) (Inr [])) ''example.net''
     = Inl (dnsException ''ETIMEOUT'' ''queryMx'' ''example.net'')"
  using getMXs_error_propagates
    [of "const_dns (Inl (dnsException ''ETIMEOUT'' ''queryMx'' ''example.net''))
                (Inr [''192.0.2.1'']) (Inr [])"
        "''example.net''" "dnsException ''ETIMEOUT'' ''queryMx'' ''example.net''" "\<lambda>i. i"]
  by (simp add: const_dns_def dnsException_def new_Error_def)

text \<open>
  Claim C3: when both address lookups of implicitMX fail with a no-data or no-such-domain
  error, implicitMX returns an empty route. The program does not: Promise.any rejects with
  an AggregateError, which has no property \<open>code\<close>, so the test of the catch clause for
  ENODATA and ENOTFOUND fails and the AggregateError is thrown. Here both lookups of a
  domain fail that way. In consequence implicitMX and getMXs never return the empty route
  (\<open>implicitMX_never_empty\<close>, \<open>getMXs_never_empty\<close>).
\<close>

theorem implicitMX_both_no_data_throws:
  "implicitMX
     (const_dns (Inr [])
        (Inl (dnsException ''ENODATA'' ''queryA'' ''nomail.example''))
        (Inl (dnsException ''ENOTFOUND'' ''queryAaaa'' ''nomail.example'')))
     ''nomail.example''
   = Inl (AggregateError
            [dnsException ''ENODATA'' ''queryA'' ''nomail.example'',
             dnsException ''ENOTFOUND'' ''queryAaaa'' ''nomail.example''])"
  by (simp add: implicitMX_def Promise_any_def const_dns_def)

text \<open>
  Claim C5: for a domain whose MX lookup yields no record (a fulfilled lookup with an empty
  list, or a no-data or no-such-domain error) and which has at least one A or AAAA record,
  getMXs returns exactly the route of the one record with priority 0 and the domain as
  exchange.
\<close>

theorem getMXs_implicit_route:
  assumes "resolveMx d domain = Inr []
           \<or> (\<exists>e. resolveMx d domain = Inl (Error e)
                  \<and> (code e = Some ''ENODATA'' \<or> code e = Some ''ENOTFOUND''))"
    and "(\<exists>as. resolve4 d domain = Inr as \<and> as \<noteq> [])
         \<or> (\<exists>as. resolve6 d domain = Inr as \<and> as \<noteq> [])"
  shows "getMXs rnd d domain = Inr [\<lparr>priority = 0, exchange = domain\<rparr>]"
proof -
  have address: "implicitMX d domain = Inr [\<lparr>priority = 0, exchange = domain\<rparr>]"
    using assms(2) by (intro implicitMX_address) blast
  from assms(1) show ?thesis
  proof
    assume "resolveMx d domain = Inr []"
    then show ?thesis using address by (simp add: getMXs_no_records)
  next
    assume "\<exists>e. resolveMx d domain = Inl (Error e)
                  \<and> (code e = Some ''ENODATA'' \<or> code e = Some ''ENOTFOUND'')"
    then obtain e where "resolveMx d domain = Inl (Error e)"
      and "code e = Some ''ENODATA'' \<or> code e = Some ''ENOTFOUND''"
      by blast
    then have "getMXs rnd d domain = implicitMX d domain"
      using getMXs_no_data [of d domain "Error e" rnd] by simp
    then show ?thesis using address by simp
  qed
qed

theorem getMXs_implicit_route_witness:
  "resolveMx (const_dns (Inl (dnsException ''ENODATA'' ''queryMx'' ''bare.example''))
                (Inl (dnsException ''ENODATA'' ''queryA'' ''bare.example''))
                (Inr [''2001:db8::25''])) ''bare.example''
     = Inl (dnsException ''ENODATA'' ''queryMx'' ''bare.example'')
   \<and> resolve6 (const_dns (Inl (dnsException ''ENODATA'' ''queryMx'' ''bare.example''))
                (Inl (dnsException ''ENODATA'' ''queryA'' ''bare.example''))
                (Inr [''2001:db8::25''])) ''bare.example''
     = Inr [''2001:db8::25'']
   \<and> getMXs (\<lambda>i. i)
        (const_dns (Inl (dnsException ''ENODATA'' ''queryMx'' ''bare.example''))
                (Inl (dnsException ''ENODATA'' ''queryA'' ''bare.example''))
                (Inr [''2001:db8::25''])) ''bare.example''
     = Inr [\<lparr>priority = 0, exchange = ''bare.example''\<rparr>]"
  using getMXs_implicit_route
    [of "const_dns (Inl (dnsException ''ENODATA'' ''queryMx'' ''bare.example''))
                (Inl (dnsException ''ENODATA'' ''queryA'' ''bare.example''))
                (Inr [''2001:db8::25''])"
        "''bare.example''" "\<lambda>i. i"]
  by (simp add: const_dns_def dnsException_def new_Error_def)

text \<open>
  Claim C8: for a domain whose MX lookup succeeds with at least one record, the route
  getMXs returns is a permutation of the records looked up, sorted non-decreasing by
  priority. The order of records of equal priority is not fixed: it follows the numbers
  Math.random returns, and two records of equal priority come out in either order.
\<close>

theorem getMXs_sorted_permutation:
  "(resolveMx d domain = Inr mx \<and> mx \<noteq> []
      \<longrightarrow> (\<exists>route. getMXs rnd d domain = Inr route
                    \<and> mset route = mset mx
                    \<and> sorted (map priority route)))
   \<and> (resolveMx d domain = Inr [a, b] \<and> priority a = priority b
      \<longrightarrow> getMXs (\<lambda>i. i) d domain = Inr [a, b]
          \<and> getMXs (\<lambda>i. 1 - i) d domain = Inr [b, a])"
proof (intro conjI impI)
  assume "resolveMx d domain = Inr mx \<and> mx \<noteq> []"
  then have "getMXs rnd d domain = Inr (sortBy rnd mx)"
    by (simp add: getMXs_records)
  then show "\<exists>route. getMXs rnd d domain = Inr route
                    \<and> mset route = mset mx
                    \<and> sorted (map priority route)"
    using mset_sortBy [of rnd mx] sorted_sortBy [of rnd mx] by blast
next
  assume pair: "resolveMx d domain = Inr [a, b] \<and> priority a = priority b"
  then have "getMXs (\<lambda>i. i) d domain = Inr (sortBy (\<lambda>i. i) [a, b])"
    using getMXs_records [of d domain "[a, b]"] by blast
  with pair show "getMXs (\<lambda>i. i) d domain = Inr [a, b]"
    by (simp only: sortBy_pair_kept)
next
  assume pair: "resolveMx d domain = Inr [a, b] \<and> priority a = priority b"
  then have "getMXs (\<lambda>i. 1 - i) d domain = Inr (sortBy (\<lambda>i. 1 - i) [a, b])"
    using getMXs_records [of d domain "[a, b]"] by blast
  with pair show "getMXs (\<lambda>i. 1 - i) d domain = Inr [b, a]"
    by (simp only: sortBy_pair_swapped)
qed

theorem getMXs_sorted_permutation_witness:
  "getMXs (\<lambda>i. 7 - i)
     (const_dns (Inr [\<lparr>priority = 20, exchange = ''mx2.example.org''\<rparr>,
                      \<lparr>priority = 10, exchange = ''mx1.example.org''\<rparr>,
                      \<lparr>priority = 10, exchange = ''mx3.example.org''\<rparr>])
        (Inr []) (Inr [])) ''example.org''
     = Inr [\<lparr>priority = 10, exchange = ''mx3.example.org''\<rparr>,
            \<lparr>priority = 10, exchange = ''mx1.example.org''\<rparr>,
            \<lparr>priority = 20, exchange = ''mx2.example.org''\<rparr>]
   \<and> (\<exists>route. getMXs (\<lambda>i. 7 - i)
     (const_dns (Inr [\<lparr>priority = 20, exchange = ''mx2.example.org''\<rparr>,
                      \<lparr>priority = 10, exchange = ''mx1.example.org''\<rparr>,
                      \<lparr>priority = 10, exchange = ''mx3.example.org''\<rparr>])
        (Inr []) (Inr [])) ''example.org'' = Inr route
      \<and> mset route = mset [\<lparr>priority = 20, exchange = ''mx2.example.org''\<rparr>,
                      \<lparr>priority = 10, exchange = ''mx1.example.org''\<rparr>,
                      \<lparr>priority = 10, exchange = ''mx3.example.org''\<rparr>]
      \<and> sorted (map priority route))"
proof -
  have run: "getMXs (\<lambda>i. 7 - i)
     (const_dns (Inr [\<lparr>priority = 20, exchange = ''mx2.example.org''\<rparr>,
                      \<lparr>priority = 10, exchange = ''mx1.example.org''\<rparr>,
                      \<lparr>priority = 10, exchange = ''mx3.example.org''\<rparr>])
        (Inr []) (Inr [])) ''example.org''
     = Inr [\<lparr>priority = 10, exchange = ''mx3.example.org''\<rparr>,
            \<lparr>priority = 10, exchange = ''mx1.example.org''\<rparr>,
            \<lparr>priority = 20, exchange = ''mx2.example.org''\<rparr>]"
    by (simp add: getMXs_def getMXs_try_def const_dns_def sortBy_def criteria_def
        less_eq_prod_def)
  show ?thesis
    using run getMXs_sorted_permutation
      [of "const_dns (Inr [\<lparr>priority = 20, exchange = ''mx2.example.org''\<rparr>,
                      \<lparr>priority = 10, exchange = ''mx1.example.org''\<rparr>,
                      \<lparr>priority = 10, exchange = ''mx3.example.org''\<rparr>])
        (Inr []) (Inr [])" "''example.org''"
        "[\<lparr>priority = 20, exchange = ''mx2.example.org''\<rparr>,
                      \<lparr>priority = 10, exchange = ''mx1.example.org''\<rparr>,
                      \<lparr>priority = 10, exchange = ''mx3.example.org''\<rparr>]" "\<lambda>i. 7 - i"]
    by (simp add: const_dns_def)
qed


section \<open>Properties of the delivery orchestrator\<close>

lemma sendMessage_body_failure:
  assumes "attempt_error (transport (exchange m)) = Some e" and "serializable e"
  shows "sendMessage_body transport name env c m =
           (New_SMTPConnection (exchange m) name
              # fst (wrapErrorEvent (transport (exchange m)) (exchange m) env c)
              @ [Logger_error (Stringified e), Quit (exchange m)],
            Throw (response_error ''Delivery attempt failed'' ''Delivery attempt failed''))"
  using assms
  by (cases "transport (exchange m)")
     (simp_all add: sendMessage_body_def JSON_stringify_def Let_def)

lemma sendMessage_body_unserializable:
  assumes "attempt_error (transport (exchange m)) = Some e" and "\<not> serializable e"
  shows "sendMessage_body transport name env c m =
           (New_SMTPConnection (exchange m) name
              # fst (wrapErrorEvent (transport (exchange m)) (exchange m) env c),
            Throw (Error (new_Error ''Converting circular structure to JSON'')))"
  using assms
  by (cases "transport (exchange m)")
     (simp_all add: sendMessage_body_def JSON_stringify_def Let_def)

lemma sendMessage_body_success:
  assumes "transport (exchange m) = Send_ok info"
  shows "sendMessage_body transport name env c m =
           (New_SMTPConnection (exchange m) name
              # fst (wrapErrorEvent (transport (exchange m)) (exchange m) env c)
              @ [Quit (exchange m)],
            Return \<lparr>sent = info, host = exchange m\<rparr>)"
  using assms by (simp add: sendMessage_body_def Let_def)

lemma sendMessage_body_never_Normal:
  "snd (sendMessage_body transport name env c m) \<noteq> Normal"
  by (cases "transport (exchange m)")
     (simp_all add: sendMessage_body_def JSON_stringify_def Let_def)

lemma for_of_first_ends:
  assumes "snd (body x) \<noteq> Normal"
  shows "for_of body (x # xs) = body x"
  using assms by (cases "body x"; cases "snd (body x)") auto

lemma sendMessage_loop_is_first_host:
  "for_of (sendMessage_body transport name env c) (m # ms) =
     sendMessage_body transport name env c m"
  by (rule for_of_first_ends) (rule sendMessage_body_never_Normal)

lemma sendMessage_resolved_first_fails:
  assumes "attempt_error (transport (exchange m)) = Some e" and "serializable e"
    and "\<not> (ms = [] \<and> priority m = 0 \<and> exchange m = [])"
  shows "sendMessage_resolved transport name env c (m # ms) =
           (New_SMTPConnection (exchange m) name
              # fst (wrapErrorEvent (transport (exchange m)) (exchange m) env c)
              @ [Logger_error (Stringified e), Quit (exchange m)],
            Inl (response_error ''Delivery attempt failed'' ''Delivery attempt failed''))"
  using assms
  by (auto simp: sendMessage_resolved_def sendMessage_loop_is_first_host
      sendMessage_body_failure)

lemma sendMessage_resolved_first_succeeds:
  assumes "transport (exchange m) = Send_ok info"
    and "\<not> (ms = [] \<and> priority m = 0 \<and> exchange m = [])"
  shows "snd (sendMessage_resolved transport name env c (m # ms)) =
           Inr \<lparr>sent = info, host = exchange m\<rparr>"
  using assms
  by (auto simp: sendMessage_resolved_def sendMessage_loop_is_first_host
      sendMessage_body_success)

lemma sendEmail_loop_advances:
  assumes "attempt_error (transport (exchange m)) = Some e" and "serializable e"
  shows "sendEmail_loop transport name env c (m # ms) =
           (New_SMTPConnection (exchange m) name
              # fst (wrapErrorEvent (transport (exchange m)) (exchange m) env c)
              @ [Logger_debug (Stringified e), Quit (exchange m)]
              @ fst (sendEmail_loop transport name env c ms),
            snd (sendEmail_loop transport name env c ms))"
  using assms
  by (cases "transport (exchange m)")
     (simp_all add: sendEmail_loop_def sendEmail_body_def JSON_stringify_def Let_def
        split: prod.splits completion.splits)

lemma sendEmail_loop_second_host:
  "snd (sendEmail_loop (refusing ''mx1.example.com'') ''relay.example.org''
          \<lparr>from_addr = ''alice@example.org'', to_addr = ''bob@example.com''\<rparr> ''Subject: hello''
          [\<lparr>priority = 10, exchange = ''mx1.example.com''\<rparr>,
           \<lparr>priority = 20, exchange = ''mx2.example.com''\<rparr>])
   = Inr \<lparr>sent = [(''response'', ''250 2.0.0 Ok'')], host = ''mx2.example.com''\<rparr>"
  by (simp add: sendEmail_loop_def sendEmail_body_def JSON_stringify_def Let_def
      refusing_def)

lemma sendMessage_after_resolution:
  assumes "mailFrom = ''<>'' \<or> (\<exists>p. parse mailFrom = Inr p)"
    and "parse rcptTo = Inr to_parsed"
    and "\<not> truthy (AddressLiteral (domainPart to_parsed))"
    and "DomainName (domainPart to_parsed) = Some dn"
    and "\<not> length (split_on (CHR ''.'') dn) < 2"
    and "getMXs rnd d dn = Inr mxRecords"
  shows "sendMessage parse rnd d transport name mailFrom rcptTo c =
           (GetMXs dn # fst (sendMessage_resolved transport name
                               \<lparr>from_addr = mailFrom, to_addr = rcptTo\<rparr> c mxRecords),
            snd (sendMessage_resolved transport name
                   \<lparr>from_addr = mailFrom, to_addr = rcptTo\<rparr> c mxRecords))"
  using assms by (auto simp: sendMessage_def Let_def split: prod.splits)

lemma sendMessage_null_MX:
  assumes "mailFrom = ''<>'' \<or> (\<exists>p. parse mailFrom = Inr p)"
    and "parse rcptTo = Inr to_parsed"
    and "\<not> truthy (AddressLiteral (domainPart to_parsed))"
    and "DomainName (domainPart to_parsed) = Some dn"
    and "\<not> length (split_on (CHR ''.'') dn) < 2"
    and "resolveMx d dn = Inr [\<lparr>priority = 0, exchange = ''''\<rparr>]"
  shows "sendMessage parse rnd d transport name mailFrom rcptTo c =
           ([GetMXs dn], Inl (response_error ''Null MX record'' ''Null MX''))"
proof -
  have "getMXs rnd d dn = Inr (sortBy rnd [\<lparr>priority = 0, exchange = ''''\<rparr>])"
    using assms(6) by (intro getMXs_records) simp_all
  then have "getMXs rnd d dn = Inr [\<lparr>priority = 0, exchange = ''''\<rparr>]"
    by (simp add: sortBy_def criteria_def)
  from sendMessage_after_resolution [OF assms(1-5) this]
  show ?thesis by (simp add: sendMessage_resolved_def)
qed

text \<open>
  Claim C1: in the host loop of sendMessage a transport error of one host is contained to
  that host and the loop goes on to the next host. The program does not: the catch clause
  inside the loop throws, so the first failure ends sendMessage. Here the route has two
  hosts, the connection to the first is refused and the second would accept the message:
  sendMessage throws after the first host, and nothing is done with the second. The loop
  of the earlier sendEmail goes on to the second host on the same input
  (\<open>sendEmail_loop_second_host\<close>).
\<close>

theorem sendMessage_first_failure_is_thrown:
  "sendMessage_resolved (refusing ''mx1.example.com'') ''relay.example.org''
     \<lparr>from_addr = ''alice@example.org'', to_addr = ''bob@example.com''\<rparr> ''Subject: hello''
     [\<lparr>priority = 10, exchange = ''mx1.example.com''\<rparr>,
      \<lparr>priority = 20, exchange = ''mx2.example.com''\<rparr>]
   = ([New_SMTPConnection ''mx1.example.com'' ''relay.example.org'',
       Logger_debug (Text ''About to connect to host mx1.example.com''),
       Connect ''mx1.example.com'',
       Logger_error (Captured (Error \<lparr>message = ''connect ECONNREFUSED'',
          code = Some ''ESOCKET'', errno = None, response = None, responseCode = None\<rparr>)),
       Logger_error (Stringified (Error \<lparr>message = ''connect ECONNREFUSED'',
          code = Some ''ESOCKET'', errno = None, response = None, responseCode = None\<rparr>)),
       Quit ''mx1.example.com''],
      Inl (Error \<lparr>message = ''Delivery attempt failed'', code = None,
             errno = None, response = Some ''Delivery attempt failed'', responseCode = Some 500\<rparr>))"
  by (simp add: sendMessage_resolved_def sendMessage_body_def JSON_stringify_def Let_def
      refusing_def response_error_def new_Error_def)

text \<open>
  Claim C4, as the spec states it: the failure raised when all hosts failed has a response
  text and the response code 500 and carries the last per-host error. The program does
  otherwise, in two ways. The failure the catch clause makes is a new Error with the
  properties \<open>message\<close>, \<open>response\<close> and \<open>responseCode\<close> only: two runs on the same route
  that differ in the error of the host throw the same value. And when the error of the
  host has a property with a cycle, \<open>JSON.stringify\<close> throws inside the catch clause:
  the caller gets a TypeError that has neither a response text nor a response code.
\<close>

theorem sendMessage_failure_without_host_error:
  "snd (sendMessage_resolved
          (failing_with (Error ((new_Error ''connect ECONNREFUSED'')\<lparr>code := Some ''ESOCKET''\<rparr>)))
          ''relay.example.org''
          \<lparr>from_addr = ''alice@example.org'', to_addr = ''bob@example.com''\<rparr> ''Subject: hello''
          [\<lparr>priority = 10, exchange = ''mx1.example.com''\<rparr>])
   = Inl (Error \<lparr>message = ''Delivery attempt failed'', code = None,
            errno = None, response = Some ''Delivery attempt failed'', responseCode = Some 500\<rparr>)
   \<and> snd (sendMessage_resolved
          (failing_with (Error ((new_Error ''Greeting never received'')\<lparr>code := Some ''ETIMEDOUT''\<rparr>)))
          ''relay.example.org''
          \<lparr>from_addr = ''alice@example.org'', to_addr = ''bob@example.com''\<rparr> ''Subject: hello''
          [\<lparr>priority = 10, exchange = ''mx1.example.com''\<rparr>])
   = Inl (Error \<lparr>message = ''Delivery attempt failed'', code = None,
            errno = None, response = Some ''Delivery attempt failed'', responseCode = Some 500\<rparr>)
   \<and> Error ((new_Error ''connect ECONNREFUSED'')\<lparr>code := Some ''ESOCKET''\<rparr>)
       \<noteq> Error ((new_Error ''Greeting never received'')\<lparr>code := Some ''ETIMEDOUT''\<rparr>)
   \<and> sendMessage_resolved (failing_with altname_error) ''relay.example.org''
          \<lparr>from_addr = ''alice@example.org'', to_addr = ''bob@example.com''\<rparr> ''Subject: hello''
          [\<lparr>priority = 10, exchange = ''mx1.example.com''\<rparr>]
   = ([New_SMTPConnection ''mx1.example.com'' ''relay.example.org'',
       Logger_debug (Text ''About to connect to host mx1.example.com''),
       Connect ''mx1.example.com''],
      Inl (Error \<lparr>message = ''Converting circular structure to JSON'', code = None,
             errno = None, response = None, responseCode = None\<rparr>))"
  by (simp add: sendMessage_resolved_def sendMessage_body_def JSON_stringify_def Let_def
      failing_with_def altname_error_def response_error_def new_Error_def)

text \<open>
  Claim C4, amended: for every route that enters the loop of sendMessage (not empty and
  not the null-MX route), when the attempt at every host of the route fails with an error
  that \<open>JSON.stringify\<close> can write, sendMessage throws an Error with the response text
  \<open>Delivery attempt failed\<close> and the response code 500; the error of a host is not part
  of the failure, it is passed to the logger's error sink. Nothing is said of an error
  that \<open>JSON.stringify\<close> cannot write.
\<close>

theorem sendMessage_all_hosts_fail:
  assumes "mxRecords \<noteq> []"
    and "\<not> (length mxRecords = 1 \<and> priority (mxRecords ! 0) = 0
             \<and> exchange (mxRecords ! 0) = [])"
    and "\<forall>m \<in> set mxRecords. \<exists>e. attempt_error (transport (exchange m)) = Some e
                                  \<and> serializable e"
  shows "snd (sendMessage_resolved transport name env c mxRecords)
           = Inl (Error \<lparr>message = ''Delivery attempt failed'', code = None,
                    errno = None, response = Some ''Delivery attempt failed'', responseCode = Some 500\<rparr>)
         \<and> (\<exists>m \<in> set mxRecords. \<exists>e.
               attempt_error (transport (exchange m)) = Some e
               \<and> Logger_error (Stringified e)
                   \<in> set (fst (sendMessage_resolved transport name env c mxRecords)))"
proof -
  from assms(1) obtain m ms where route: "mxRecords = m # ms"
    by (cases mxRecords) auto
  with assms(3) obtain e where e: "attempt_error (transport (exchange m)) = Some e"
    and ser: "serializable e"
    by auto
  from assms(2) route have entered: "\<not> (ms = [] \<and> priority m = 0 \<and> exchange m = [])"
    by auto
  have run: "sendMessage_resolved transport name env c (m # ms) =
           (New_SMTPConnection (exchange m) name
              # fst (wrapErrorEvent (transport (exchange m)) (exchange m) env c)
              @ [Logger_error (Stringified e), Quit (exchange m)],
            Inl (response_error ''Delivery attempt failed'' ''Delivery attempt failed''))"
    using e ser entered by (rule sendMessage_resolved_first_fails)
  have "snd (sendMessage_resolved transport name env c mxRecords)
           = Inl (Error \<lparr>message = ''Delivery attempt failed'', code = None,
                    errno = None, response = Some ''Delivery attempt failed'', responseCode = Some 500\<rparr>)"
    by (simp add: route run response_error_def new_Error_def)
  moreover have "Logger_error (Stringified e)
      \<in> set (fst (sendMessage_resolved transport name env c mxRecords))"
    by (simp add: route run)
  ultimately show ?thesis using e route by auto
qed

theorem sendMessage_all_hosts_fail_witness:
  "snd (sendMessage_resolved
          (failing_with (Error ((new_Error ''Greeting never received'')\<lparr>code := Some ''ETIMEDOUT''\<rparr>)))
          ''relay.example.org''
          \<lparr>from_addr = ''alice@example.org'', to_addr = ''bob@example.com''\<rparr> ''Subject: hello''
          [\<lparr>priority = 10, exchange = ''mx1.example.com''\<rparr>,
           \<lparr>priority = 20, exchange = ''mx2.example.com''\<rparr>])
   = Inl (Error \<lparr>message = ''Delivery attempt failed'', code = None,
            errno = None, response = Some ''Delivery attempt failed'', responseCode = Some 500\<rparr>)"
  using sendMessage_all_hosts_fail
    [of "[\<lparr>priority = 10, exchange = ''mx1.example.com''\<rparr>,
          \<lparr>priority = 20, exchange = ''mx2.example.com''\<rparr>]"
        "failing_with (Error ((new_Error ''Greeting never received'')\<lparr>code := Some ''ETIMEDOUT''\<rparr>))"
        "''relay.example.org''"
        "\<lparr>from_addr = ''alice@example.org'', to_addr = ''bob@example.com''\<rparr>"
        "''Subject: hello''"]
  by (simp add: failing_with_def)

text \<open>
  Claim C6: after resolution, for the empty route sendMessage fails with the error
  \<open>No MX (or A or AAAA) record\<close>, response code 500, and for the route of the one record
  with priority 0 and the empty exchange it fails with the error \<open>Null MX record\<close>,
  response code 500; in both cases it constructs no connection and attempts none: nothing
  is done to the outside after the resolution.
\<close>

theorem sendMessage_no_route:
  "sendMessage_resolved transport name env c []
     = ([], Inl (Error \<lparr>message = ''No MX (or A or AAAA) record'', code = None,
                   errno = None, response = Some ''No MX or A or AAAA'', responseCode = Some 500\<rparr>))
   \<and> sendMessage_resolved transport name env c [\<lparr>priority = 0, exchange = ''''\<rparr>]
     = ([], Inl (Error \<lparr>message = ''Null MX record'', code = None,
                   errno = None, response = Some ''Null MX'', responseCode = Some 500\<rparr>))"
  by (simp add: sendMessage_resolved_def response_error_def new_Error_def)

text \<open>
  Claim C7, as the spec states it: every call of sendMessage whose recipient's domain part
  is an address literal fails with response code 500. The program does otherwise when the
  sender is no mailbox: sendMessage parses the sender first, before it looks at the
  recipient, and the throw of the parser ends the call. Here the recipient has an address
  literal and the sender is a text the parser refuses: the caller gets the parser's
  error, which has no response code.
\<close>

theorem sendMessage_sender_is_parsed_first:
  "parse_example ''postmaster@[192.0.2.1]''
     = Inr \<lparr>domainPart = \<lparr>AddressLiteral = Some ''[192.0.2.1]'', DomainName = None\<rparr>\<rparr>
   \<and> sendMessage parse_example (\<lambda>i. i) (const_dns (Inr []) (Inr []) (Inr []))
     (refusing ''mx1.example.com'') ''relay.example.org'' ''nobody'' ''postmaster@[192.0.2.1]''
     ''Subject: hello''
     = ([], Inl (Error \<lparr>message = ''address parsing failed'', code = None,
                   errno = None, response = None, responseCode = None\<rparr>))"
  by (simp add: sendMessage_def parse_example_def new_Error_def)

text \<open>
  Claim C7, amended: a call of sendMessage whose sender is \<open><>\<close> or a text the parser
  accepts, and whose recipient's domain part is an address literal, or whose recipient's
  domain name has fewer than 2 labels separated by dots, fails with response code 500
  before any DNS query and any connection: nothing is done to the outside. The address
  literal is tested first: a recipient with an address literal gets the address-literal
  error whatever its domain name is. The parser accepts the recipient; an address literal
  is a text that is not empty.
\<close>

theorem sendMessage_validation:
  assumes "mailFrom = ''<>'' \<or> (\<exists>p. parse mailFrom = Inr p)"
    and "parse rcptTo = Inr to_parsed"
  shows "(AddressLiteral (domainPart to_parsed) = Some lit \<and> lit \<noteq> []
            \<longrightarrow> sendMessage parse rnd d transport name mailFrom rcptTo c
                = ([], Inl (Error \<lparr>message = ''Domain is an address literal'', code = None,
                              errno = None, response = Some ''Domain is an address literal'',
                              responseCode = Some 500\<rparr>)))
         \<and> (\<not> truthy (AddressLiteral (domainPart to_parsed))
              \<and> DomainName (domainPart to_parsed) = Some dn
              \<and> length (split_on (CHR ''.'') dn) < 2
            \<longrightarrow> sendMessage parse rnd d transport name mailFrom rcptTo c
                = ([], Inl (Error \<lparr>message = ''Domain not fully qualified'', code = None,
                              errno = None, response = Some ''Domain not fully qualified'',
                              responseCode = Some 500\<rparr>)))"
  using assms
  by (auto simp: sendMessage_def Let_def response_error_def new_Error_def)

theorem sendMessage_validation_witness:
  "sendMessage parse_example (\<lambda>i. i) (const_dns (Inr []) (Inr []) (Inr []))
     (refusing ''mx1.example.com'') ''relay.example.org'' ''<>'' ''postmaster@[192.0.2.1]''
     ''Subject: hello''
     = ([], Inl (Error \<lparr>message = ''Domain is an address literal'', code = None,
                   errno = None, response = Some ''Domain is an address literal'',
                   responseCode = Some 500\<rparr>))
   \<and> sendMessage parse_example (\<lambda>i. i) (const_dns (Inr []) (Inr []) (Inr []))
     (refusing ''mx1.example.com'') ''relay.example.org'' ''<>'' ''root@localhost''
     ''Subject: hello''
     = ([], Inl (Error \<lparr>message = ''Domain not fully qualified'', code = None,
                   errno = None, response = Some ''Domain not fully qualified'',
                   responseCode = Some 500\<rparr>))"
  using sendMessage_validation
    [of "''<>''" parse_example "''postmaster@[192.0.2.1]''"
        "\<lparr>domainPart = \<lparr>AddressLiteral = Some ''[192.0.2.1]'', DomainName = None\<rparr>\<rparr>"
        "''[192.0.2.1]''" "\<lambda>i. i" "const_dns (Inr []) (Inr []) (Inr [])"
        "refusing ''mx1.example.com''" "''relay.example.org''" "''Subject: hello''" "''x''"]
    sendMessage_validation
    [of "''<>''" parse_example "''root@localhost''"
        "\<lparr>domainPart = \<lparr>AddressLiteral = None, DomainName = Some ''localhost''\<rparr>\<rparr>"
        "''-''" "\<lambda>i. i" "const_dns (Inr []) (Inr []) (Inr [])"
        "refusing ''mx1.example.com''" "''relay.example.org''" "''Subject: hello''" "''localhost''"]
  by (simp add: parse_example_def)

section \<open>Properties of the address classifier: addressFromLiteral\<close>

lemma until_bracket_found:
  "CHR '']'' \<notin> set s \<Longrightarrow> until_bracket (s @ CHR '']'' # post) = Some s"
  by (induction s) auto

lemma until_bracket_Some:
  "until_bracket t = Some s \<Longrightarrow> \<exists>post. t = s @ CHR '']'' # post \<and> CHR '']'' \<notin> set s"
proof (induction t arbitrary: s)
  case Nil
  then show ?case by simp
next
  case (Cons c cs)
  show ?case
  proof (cases "c = CHR '']''")
    case True
    with Cons.prems show ?thesis by auto
  next
    case False
    with Cons.prems obtain s' where s': "until_bracket cs = Some s'" and s: "s = c # s'"
      by auto
    from Cons.IH [OF s'] obtain post where "cs = s' @ CHR '']'' # post"
      and "CHR '']'' \<notin> set s'"
      by blast
    with False s show ?thesis by auto
  qed
qed

lemma until_bracket_None: "until_bracket t = None \<longleftrightarrow> CHR '']'' \<notin> set t"
  by (induction t) auto

lemma regex_first_here: "at t = Some g \<Longrightarrow> regex_first at t = Some g"
  by (cases t) simp_all

lemma regex_first_skip:
  "(\<And>c rest. c \<in> set pre \<Longrightarrow> at (c # rest) = None)
     \<Longrightarrow> regex_first at (pre @ t) = regex_first at t"
  by (induction pre) simp_all

lemma regex_first_Some:
  "regex_first at l = Some g \<Longrightarrow> \<exists>pre t. l = pre @ t \<and> at t = Some g"
proof (induction l)
  case Nil
  then show ?case by simp
next
  case (Cons c cs)
  show ?case
  proof (cases "at (c # cs)")
    case None
    with Cons.prems have "regex_first at cs = Some g" by simp
    from Cons.IH [OF this] obtain pre t where "cs = pre @ t" and "at t = Some g"
      by blast
    then have "c # cs = (c # pre) @ t \<and> at t = Some g" by simp
    then show ?thesis by blast
  next
    case (Some m)
    with Cons.prems have "at (c # cs) = Some g" by simp
    then have "c # cs = [] @ (c # cs) \<and> at (c # cs) = Some g" by simp
    then show ?thesis by blast
  qed
qed

lemma regex_first_matches:
  "at t \<noteq> None \<Longrightarrow> regex_first at (pre @ t) \<noteq> None"
proof (induction pre)
  case Nil
  then show ?case by (cases t) auto
next
  case (Cons c pre)
  then show ?case by (cases "at (c # pre @ t)") auto
qed

lemma m4_at_Some:
  "m4_at t = Some s \<longleftrightarrow> (\<exists>post. t = CHR ''['' # s @ CHR '']'' # post \<and> CHR '']'' \<notin> set s)"
proof
  assume "m4_at t = Some s"
  then obtain cs where "t = CHR ''['' # cs" and "until_bracket cs = Some s"
    by (auto simp: m4_at_def split: list.splits if_splits)
  then show "\<exists>post. t = CHR ''['' # s @ CHR '']'' # post \<and> CHR '']'' \<notin> set s"
    using until_bracket_Some by blast
next
  assume "\<exists>post. t = CHR ''['' # s @ CHR '']'' # post \<and> CHR '']'' \<notin> set s"
  then show "m4_at t = Some s"
    by (auto simp: m4_at_def until_bracket_found)
qed

lemma m4_at_other: "c \<noteq> CHR ''['' \<Longrightarrow> m4_at (c # rest) = None"
  by (simp add: m4_at_def)

lemma lower_char_bracket: "lower_char c = CHR ''['' \<longleftrightarrow> c = CHR ''[''"
  by (auto simp: lower_char_def split: if_splits)

lemma ci_eq_tag_length: "ci_eq tag ''IPv6:'' \<Longrightarrow> length tag = 5"
proof -
  assume "ci_eq tag ''IPv6:''"
  then have "length (map lower_char tag) = length (map lower_char ''IPv6:'')"
    unfolding ci_eq_def by (rule arg_cong)
  then show ?thesis by simp
qed

lemma lower_char_of_bracket: "lower_char (CHR ''['') = CHR ''[''"
  by (simp add: lower_char_def)

lemma m6_at_other: "c \<noteq> CHR ''['' \<Longrightarrow> m6_at (c # rest) = None"
  by (auto simp: m6_at_def ci_eq_def lower_char_of_bracket lower_char_bracket)

lemma m6_at_tagged:
  assumes "ci_eq tag ''IPv6:''" and "CHR '']'' \<notin> set s"
  shows "m6_at (CHR ''['' # tag @ s @ CHR '']'' # post) = Some s"
proof -
  have len: "length tag = 5" using assms(1) by (rule ci_eq_tag_length)
  then have "take 6 (CHR ''['' # tag @ s @ CHR '']'' # post) = CHR ''['' # tag"
    and "drop 6 (CHR ''['' # tag @ s @ CHR '']'' # post) = s @ CHR '']'' # post"
    by simp_all
  moreover have "ci_eq (CHR ''['' # tag) ''[IPv6:''"
    using assms(1) by (simp add: ci_eq_def)
  ultimately show ?thesis
    using assms(2) by (simp add: m6_at_def until_bracket_found)
qed

lemma m6_at_Some:
  assumes "m6_at t = Some s"
  shows "\<exists>tag post. t = CHR ''['' # tag @ s @ CHR '']'' # post \<and> ci_eq tag ''IPv6:''
           \<and> CHR '']'' \<notin> set s"
proof -
  from assms have ci: "ci_eq (take 6 t) ''[IPv6:''" and ub: "until_bracket (drop 6 t) = Some s"
    by (auto simp: m6_at_def split: if_splits)
  from ci have "length (map lower_char (take 6 t)) = length (map lower_char ''[IPv6:'')"
    unfolding ci_eq_def by (rule arg_cong)
  then have "length (take 6 t) = 6" by simp
  then obtain c tag where ct: "take 6 t = c # tag"
    by (cases "take 6 t") auto
  with ci have "lower_char c = CHR ''[''" and tag: "ci_eq tag ''IPv6:''"
    by (simp_all add: ci_eq_def lower_char_def)
  then have c: "c = CHR ''[''" by (simp add: lower_char_bracket)
  from until_bracket_Some [OF ub] obtain post where
    post: "drop 6 t = s @ CHR '']'' # post" and s: "CHR '']'' \<notin> set s"
    by blast
  have "t = take 6 t @ drop 6 t" by simp
  with ct c post have "t = CHR ''['' # tag @ s @ CHR '']'' # post" by simp
  with tag s show ?thesis by blast
qed

lemma m4_leftmost:
  assumes "CHR ''['' \<notin> set pre" and "CHR '']'' \<notin> set s"
  shows "regex_first m4_at (pre @ CHR ''['' # s @ CHR '']'' # post) = Some s"
proof -
  have "regex_first m4_at (pre @ CHR ''['' # s @ CHR '']'' # post)
          = regex_first m4_at (CHR ''['' # s @ CHR '']'' # post)"
    using assms(1) by (intro regex_first_skip m4_at_other) auto
  also have "\<dots> = Some s"
    using assms(2) by (intro regex_first_here) (simp add: m4_at_Some)
  finally show ?thesis .
qed

lemma m6_leftmost:
  assumes "ci_eq tag ''IPv6:''" and "CHR ''['' \<notin> set pre" and "CHR '']'' \<notin> set s"
  shows "regex_first m6_at (pre @ CHR ''['' # tag @ s @ CHR '']'' # post) = Some s"
proof -
  have "regex_first m6_at (pre @ CHR ''['' # tag @ s @ CHR '']'' # post)
          = regex_first m6_at (CHR ''['' # tag @ s @ CHR '']'' # post)"
    using assms(2) by (intro regex_first_skip m6_at_other) auto
  also have "\<dots> = Some s"
    using assms(1,3) by (intro regex_first_here m6_at_tagged)
  finally show ?thesis .
qed

lemma m6_none_iff:
  "regex_first m6_at literal = None \<longleftrightarrow>
     \<not> (\<exists>pre tag s post. literal = pre @ ''['' @ tag @ s @ '']'' @ post \<and> ci_eq tag ''IPv6:'')"
proof
  assume none: "regex_first m6_at literal = None"
  show "\<not> (\<exists>pre tag s post. literal = pre @ ''['' @ tag @ s @ '']'' @ post \<and> ci_eq tag ''IPv6:'')"
  proof
    assume "\<exists>pre tag s post. literal = pre @ ''['' @ tag @ s @ '']'' @ post \<and> ci_eq tag ''IPv6:''"
    then obtain pre tag s post where l: "literal = pre @ ''['' @ tag @ s @ '']'' @ post"
      and tag: "ci_eq tag ''IPv6:''"
      by blast
    have len: "length tag = 5" using tag by (rule ci_eq_tag_length)
    have "CHR '']'' \<in> set (s @ CHR '']'' # post)" by simp
    then have "until_bracket (s @ CHR '']'' # post) \<noteq> None"
      by (simp only: until_bracket_None not_not)
    moreover have "ci_eq (CHR ''['' # tag) ''[IPv6:''"
      using tag by (simp add: ci_eq_def)
    ultimately have "m6_at (CHR ''['' # tag @ s @ CHR '']'' # post) \<noteq> None"
      using len by (simp add: m6_at_def)
    then have "regex_first m6_at (pre @ CHR ''['' # tag @ s @ CHR '']'' # post) \<noteq> None"
      by (rule regex_first_matches)
    with none l show False by simp
  qed
next
  assume no: "\<not> (\<exists>pre tag s post. literal = pre @ ''['' @ tag @ s @ '']'' @ post \<and> ci_eq tag ''IPv6:'')"
  show "regex_first m6_at literal = None"
  proof (cases "regex_first m6_at literal")
    case None
    then show ?thesis .
  next
    case (Some g)
    from regex_first_Some [OF this] obtain pre t where "literal = pre @ t" and "m6_at t = Some g"
      by blast
    with m6_at_Some [of t g] obtain tag post where
      "literal = pre @ ''['' @ tag @ g @ '']'' @ post" and "ci_eq tag ''IPv6:''"
      by auto
    with no show ?thesis by blast
  qed
qed

lemma m4_none_iff:
  "regex_first m4_at literal = None \<longleftrightarrow>
     \<not> (\<exists>pre s post. literal = pre @ ''['' @ s @ '']'' @ post \<and> CHR '']'' \<notin> set s)"
proof
  assume none: "regex_first m4_at literal = None"
  show "\<not> (\<exists>pre s post. literal = pre @ ''['' @ s @ '']'' @ post \<and> CHR '']'' \<notin> set s)"
  proof
    assume "\<exists>pre s post. literal = pre @ ''['' @ s @ '']'' @ post \<and> CHR '']'' \<notin> set s"
    then obtain pre s post where l: "literal = pre @ ''['' @ s @ '']'' @ post"
      and s: "CHR '']'' \<notin> set s"
      by blast
    have "m4_at (CHR ''['' # s @ CHR '']'' # post) \<noteq> None"
      using s by (simp add: m4_at_def until_bracket_found)
    then have "regex_first m4_at (pre @ CHR ''['' # s @ CHR '']'' # post) \<noteq> None"
      by (rule regex_first_matches)
    with none l show False by simp
  qed
next
  assume no: "\<not> (\<exists>pre s post. literal = pre @ ''['' @ s @ '']'' @ post \<and> CHR '']'' \<notin> set s)"
  show "regex_first m4_at literal = None"
  proof (cases "regex_first m4_at literal")
    case None
    then show ?thesis .
  next
    case (Some g)
    from regex_first_Some [OF this] obtain pre t where "literal = pre @ t" and "m4_at t = Some g"
      by blast
    then obtain post where "literal = pre @ ''['' @ g @ '']'' @ post" and "CHR '']'' \<notin> set g"
      by (auto simp: m4_at_Some)
    with no show ?thesis by blast
  qed
qed

lemma m6_match_is_bracketed:
  assumes "regex_first m6_at literal = Some g"
  shows "regex_first m4_at literal \<noteq> None"
proof -
  from regex_first_Some [OF assms] obtain pre t where l: "literal = pre @ t"
    and "m6_at t = Some g"
    by blast
  with m6_at_Some [of t g] obtain tag post where
    t: "t = CHR ''['' # tag @ g @ CHR '']'' # post"
    by auto
  have "CHR '']'' \<in> set (tag @ g @ CHR '']'' # post)" by simp
  then have "until_bracket (tag @ g @ CHR '']'' # post) \<noteq> None"
    by (simp only: until_bracket_None not_not)
  then have "m4_at t \<noteq> None" by (simp add: t m4_at_def)
  then show ?thesis unfolding l by (rule regex_first_matches)
qed

lemma addressFromLiteral_throws_iff:
  "(\<exists>e. addressFromLiteral literal = Inl e) \<longleftrightarrow> regex_first m4_at literal = None"
proof (cases "regex_first m6_at literal")
  case None
  then show ?thesis by (auto simp: addressFromLiteral_def split: option.splits)
next
  case (Some g)
  then have "regex_first m4_at literal \<noteq> None" by (rule m6_match_is_bracketed)
  with Some show ?thesis by (auto simp: addressFromLiteral_def)
qed

text \<open>
  Claim C10, as stated: for every input containing a substring \<open>[s]\<close>, where \<open>s\<close> contains
  no \<open>]\<close> (and the input does not match the IPv6 form first), addressFromLiteral returns
  \<open>s\<close>. The program does otherwise when that substring is not the leftmost one: the
  pattern matches at the first \<open>[\<close>. Here the input contains \<open>[b]\<close>, and has no IPv6
  form, and addressFromLiteral returns \<open>a\<close>.
\<close>

theorem addressFromLiteral_first_bracket_wins:
  "''[a][b]'' = ''[a]'' @ ''['' @ ''b'' @ '']'' @ ''''
   \<and> CHR '']'' \<notin> set ''b''
   \<and> regex_first m6_at ''[a][b]'' = None
   \<and> addressFromLiteral ''[a][b]'' = Inr ''a''
   \<and> addressFromLiteral ''[a][b]'' \<noteq> Inr ''b''"
  by (simp add: addressFromLiteral_def m6_at_def m4_at_def ci_eq_def lower_char_def)

text \<open>
  Claim C10, amended: addressFromLiteral does not validate the text it extracts and does
  not anchor its patterns. For every input whose first \<open>[\<close> begins a substring \<open>[s]\<close>,
  where \<open>s\<close> contains no \<open>]\<close>, and which has no substring of the IPv6 form, it returns
  \<open>s\<close>, whatever \<open>s\<close> is. For every input whose first \<open>[\<close> begins a substring
  \<open>[\<close>tag\<open>s]\<close>, where the tag is \<open>IPv6:\<close> in any case of its letters and \<open>s\<close> contains no
  \<open>]\<close>, it returns \<open>s\<close>. It throws exactly when the input has no substring \<open>[s]\<close> at all.
\<close>

theorem addressFromLiteral_leftmost:
  "(literal = pre @ ''['' @ s @ '']'' @ post \<and> CHR ''['' \<notin> set pre \<and> CHR '']'' \<notin> set s
      \<and> \<not> (\<exists>pre' tag' s' post'. literal = pre' @ ''['' @ tag' @ s' @ '']'' @ post'
                                    \<and> ci_eq tag' ''IPv6:'')
      \<longrightarrow> addressFromLiteral literal = Inr s)
   \<and> (literal = pre @ ''['' @ tag @ s @ '']'' @ post \<and> ci_eq tag ''IPv6:''
      \<and> CHR ''['' \<notin> set pre \<and> CHR '']'' \<notin> set s
      \<longrightarrow> addressFromLiteral literal = Inr s)
   \<and> ((\<exists>e. addressFromLiteral literal = Inl e)
      \<longleftrightarrow> \<not> (\<exists>pre s post. literal = pre @ ''['' @ s @ '']'' @ post \<and> CHR '']'' \<notin> set s))"
proof (intro conjI impI)
  assume h: "literal = pre @ ''['' @ s @ '']'' @ post \<and> CHR ''['' \<notin> set pre \<and> CHR '']'' \<notin> set s
      \<and> \<not> (\<exists>pre' tag' s' post'. literal = pre' @ ''['' @ tag' @ s' @ '']'' @ post'
                                    \<and> ci_eq tag' ''IPv6:'')"
  then have "\<not> (\<exists>pre' tag' s' post'. literal = pre' @ ''['' @ tag' @ s' @ '']'' @ post'
                                    \<and> ci_eq tag' ''IPv6:'')"
    by (rule_tac conjunct2 [OF conjunct2 [OF conjunct2]])
  then have "regex_first m6_at literal = None"
    using m6_none_iff [of literal] by blast
  moreover from h have "regex_first m4_at literal = Some s"
    using m4_leftmost [of pre s post] by simp
  ultimately show "addressFromLiteral literal = Inr s"
    by (simp add: addressFromLiteral_def)
next
  assume h: "literal = pre @ ''['' @ tag @ s @ '']'' @ post \<and> ci_eq tag ''IPv6:''
      \<and> CHR ''['' \<notin> set pre \<and> CHR '']'' \<notin> set s"
  then have "regex_first m6_at literal = Some s"
    using m6_leftmost [of tag pre s post] by simp
  then show "addressFromLiteral literal = Inr s"
    by (simp add: addressFromLiteral_def)
next
  show "(\<exists>e. addressFromLiteral literal = Inl e)
      \<longleftrightarrow> \<not> (\<exists>pre s post. literal = pre @ ''['' @ s @ '']'' @ post \<and> CHR '']'' \<notin> set s)"
    by (simp only: addressFromLiteral_throws_iff m4_none_iff)
qed

theorem addressFromLiteral_leftmost_witness:
  "addressFromLiteral ''[not.an.ip]'' = Inr ''not.an.ip''
   \<and> addressFromLiteral ''to [ipV6:::1], please'' = Inr ''::1''
   \<and> (\<exists>e. addressFromLiteral ''127.0.0.1'' = Inl e)"
proof -
  have no6: "regex_first m6_at ''[not.an.ip]'' = None"
    by (simp add: m6_at_def ci_eq_def lower_char_def)
  have no4: "regex_first m4_at ''127.0.0.1'' = None"
    by (simp add: m4_at_def)
  have tag: "ci_eq ''ipV6:'' ''IPv6:''"
    by (simp add: ci_eq_def lower_char_def)
  have "addressFromLiteral ''[not.an.ip]'' = Inr ''not.an.ip''"
    using addressFromLiteral_leftmost [of "''[not.an.ip]''" "''''" "''not.an.ip''" "''''"]
      no6 [unfolded m6_none_iff]
    by simp
  moreover have "addressFromLiteral ''to [ipV6:::1], please'' = Inr ''::1''"
    using addressFromLiteral_leftmost
      [of "''to [ipV6:::1], please''" "''to ''" "''::1''" "'', please''" "''ipV6:''"] tag
    by simp
  moreover have "\<exists>e. addressFromLiteral ''127.0.0.1'' = Inl e"
    using addressFromLiteral_leftmost [of "''127.0.0.1''"] no4 [unfolded m4_none_iff]
    by simp
  ultimately show ?thesis by blast
qed

section \<open>Properties of the address classifier: isPrivate\<close>

lemma split_on_not_empty: "split_on sep s \<noteq> []"
  by (induction s) (auto split: list.splits)

lemma split_on_single: "split_on sep s = [a] \<Longrightarrow> s = a"
proof (induction s arbitrary: a)
  case Nil
  then show ?case by simp
next
  case (Cons c cs)
  then show ?case using split_on_not_empty [of sep cs] by (auto split: if_splits list.splits)
qed

lemma split_on_more:
  "split_on sep s = a # w # ws \<Longrightarrow> \<exists>t. s = a @ sep # t \<and> split_on sep t = w # ws"
proof (induction s arbitrary: a)
  case Nil
  then show ?case by simp
next
  case (Cons c cs)
  show ?case
  proof (cases "c = sep")
    case True
    with Cons.prems show ?thesis by auto
  next
    case False
    with Cons.prems obtain a' where a: "a = c # a'" and "split_on sep cs = a' # w # ws"
      by (auto split: list.splits)
    from Cons.IH [OF this(2)] obtain t where "cs = a' @ sep # t" and "split_on sep t = w # ws"
      by blast
    with a show ?thesis by auto
  qed
qed

lemma split_on_four:
  assumes "split_on sep s = [a, b, c, d]"
  shows "s = a @ sep # b @ sep # c @ sep # d"
proof -
  from split_on_more [OF assms] obtain t1 where s: "s = a @ sep # t1"
    and t1: "split_on sep t1 = [b, c, d]"
    by blast
  from split_on_more [OF t1] obtain t2 where t1': "t1 = b @ sep # t2"
    and t2: "split_on sep t2 = [c, d]"
    by blast
  from split_on_more [OF t2] obtain t3 where t2': "t2 = c @ sep # t3"
    and t3: "split_on sep t3 = [d]"
    by blast
  from split_on_single [OF t3] s t1' t2' show ?thesis by simp
qed

lemma digit_value_bound: "is_digit x \<Longrightarrow> digit_value x \<le> 9"
  by (auto simp: is_digit_def digit_value_def)

lemma digit_code: "is_digit x \<Longrightarrow> (of_char x :: nat) = 48 + digit_value x"
  by (auto simp: is_digit_def digit_value_def)

lemma digit_value_inj:
  assumes "is_digit x" and "is_digit y" and "digit_value x = digit_value y"
  shows "x = y"
proof -
  have "(of_char x :: nat) = of_char y"
    using assms by (simp add: digit_code)
  then show ?thesis by simp
qed

lemma nonzero_digit: "a \<in> set ''123456789'' \<Longrightarrow> is_digit a \<and> 1 \<le> digit_value a"
  by (auto simp: is_digit_def digit_value_def)

lemma octet_shape:
  assumes "octet a"
  shows "(\<exists>x. a = [x] \<and> is_digit x)
       \<or> (\<exists>x y. a = [x, y] \<and> is_digit x \<and> 1 \<le> digit_value x \<and> is_digit y)
       \<or> (\<exists>x y z. a = [x, y, z] \<and> is_digit x \<and> 1 \<le> digit_value x \<and> is_digit y \<and> is_digit z)"
proof (cases a rule: octet.cases)
  case (1 x)
  with assms show ?thesis by simp
next
  case (2 x y)
  with assms show ?thesis using nonzero_digit [of x] by simp
next
  case (3 x y z)
  with assms have "x \<in> set ''123456789''" and "is_digit y \<and> is_digit z"
    by (auto simp: is_digit_def)
  with 3 show ?thesis using nonzero_digit [of x] by simp
qed (use assms in simp_all)

lemma Number_digits:
  "Number [x] = digit_value x"
  "Number [x, y] = 10 * digit_value x + digit_value y"
  "Number [x, y, z] = 100 * digit_value x + 10 * digit_value y + digit_value z"
  by (simp_all add: Number_def)


lemma two_digits_eq:
  fixes a b c d :: nat
  assumes "10 * a + b = 10 * c + d" and "b \<le> 9" and "d \<le> 9"
  shows "a = c \<and> b = d"
proof -
  have "(10 * a + b) mod 10 = b" and "(10 * c + d) mod 10 = d"
    using assms(2,3) by simp_all
  with assms(1) have "b = d" by simp
  with assms(1) show ?thesis by simp
qed

lemma three_digits_eq:
  fixes a b c d e f :: nat
  assumes "100 * a + 10 * b + c = 100 * d + 10 * e + f"
    and "b \<le> 9" and "c \<le> 9" and "e \<le> 9" and "f \<le> 9"
  shows "a = d \<and> b = e \<and> c = f"
proof -
  from assms(1) have "10 * (10 * a + b) + c = 10 * (10 * d + e) + f" by simp
  from two_digits_eq [OF this assms(3) assms(5)]
  have "10 * a + b = 10 * d + e" and "c = f" by simp_all
  with two_digits_eq [OF this(1) assms(2) assms(4)] show ?thesis by simp
qed

lemma Number_inj:
  assumes "octet a" and "octet b" and "Number a = Number b"
  shows "a = b"
proof -
  note bounds = digit_value_bound
  from octet_shape [OF assms(1)] octet_shape [OF assms(2)] show ?thesis
  proof (elim disjE exE conjE)
    fix x y assume *: "a = [x]" "b = [y]" "is_digit x" "is_digit y"
    with assms(3) have "digit_value x = digit_value y" by (simp add: Number_digits)
    with * show ?thesis using digit_value_inj [of x y] by blast
  next
    fix x y z assume "a = [x]" "b = [y, z]" "is_digit x" "1 \<le> digit_value y"
    with assms(3) bounds [of x] show ?thesis by (simp add: Number_digits)
  next
    fix x y z w assume "a = [x]" "b = [y, z, w]" "is_digit x" "1 \<le> digit_value y"
    with assms(3) bounds [of x] show ?thesis by (simp add: Number_digits)
  next
    fix x y z assume "a = [x, y]" "b = [z]" "is_digit z" "1 \<le> digit_value x"
    with assms(3) bounds [of z] show ?thesis by (simp add: Number_digits)
  next
    fix x y z w assume *: "a = [x, y]" "b = [z, w]" "is_digit x" "is_digit y" "is_digit z" "is_digit w"
    with assms(3) have "10 * digit_value x + digit_value y = 10 * digit_value z + digit_value w"
      by (simp add: Number_digits)
    from two_digits_eq [OF this bounds bounds] *
    have "digit_value x = digit_value z" and "digit_value y = digit_value w" by blast+
    with * show ?thesis using digit_value_inj [of x z] digit_value_inj [of y w] by blast
  next
    fix x y z w v assume "a = [x, y]" "b = [z, w, v]" "is_digit x" "is_digit y" "1 \<le> digit_value z"
    with assms(3) bounds [of x] bounds [of y] show ?thesis by (simp add: Number_digits)
  next
    fix x y z w assume "a = [x, y, z]" "b = [w]" "is_digit w" "1 \<le> digit_value x"
    with assms(3) bounds [of w] show ?thesis by (simp add: Number_digits)
  next
    fix x y z w v assume "a = [x, y, z]" "b = [w, v]" "is_digit w" "is_digit v" "1 \<le> digit_value x"
    with assms(3) bounds [of w] bounds [of v] show ?thesis by (simp add: Number_digits)
  next
    fix x y z u v w assume *: "a = [x, y, z]" "b = [u, v, w]" "is_digit x" "is_digit y" "is_digit z"
      "is_digit u" "is_digit v" "is_digit w"
    with assms(3) have "100 * digit_value x + 10 * digit_value y + digit_value z
        = 100 * digit_value u + 10 * digit_value v + digit_value w"
      by (simp add: Number_digits)
    from three_digits_eq [OF this bounds bounds bounds bounds] *
    have "digit_value x = digit_value u" and "digit_value y = digit_value v"
      and "digit_value z = digit_value w" by blast+
    with * show ?thesis
      using digit_value_inj [of x u] digit_value_inj [of y v] digit_value_inj [of z w]
      by blast
  qed
qed

lemma octet_literals: "octet ''10''" "octet ''172''" "octet ''192''" "octet ''168''"
  by (simp_all add: is_digit_def)

lemma Number_literals:
  "Number ''10'' = 10" "Number ''172'' = 172" "Number ''192'' = 192" "Number ''168'' = 168"
  by (simp_all add: Number_def digit_value_def)

lemma octet_eq_literal:
  assumes "octet a"
  shows "a = ''10'' \<longleftrightarrow> Number a = 10"
    and "a = ''172'' \<longleftrightarrow> Number a = 172"
    and "a = ''192'' \<longleftrightarrow> Number a = 192"
    and "a = ''168'' \<longleftrightarrow> Number a = 168"
proof -
  show "a = ''10'' \<longleftrightarrow> Number a = 10"
    using Number_inj [OF assms octet_literals(1)] Number_literals(1) by metis
  show "a = ''172'' \<longleftrightarrow> Number a = 172"
    using Number_inj [OF assms octet_literals(2)] Number_literals(2) by metis
  show "a = ''192'' \<longleftrightarrow> Number a = 192"
    using Number_inj [OF assms octet_literals(3)] Number_literals(3) by metis
  show "a = ''168'' \<longleftrightarrow> Number a = 168"
    using Number_inj [OF assms octet_literals(4)] Number_literals(4) by metis
qed

lemma dot_is_no_digit: "\<not> is_digit (CHR ''.'')"
  by (simp add: is_digit_def)

lemma digits_1_3_one:
  assumes "is_digit x" and "r = [] \<or> \<not> is_digit (hd r)"
  shows "\<exists>more. digits_1_3 (x # r) = ([x], r) # more"
  using assms by (cases r) (simp_all add: digits_1_3_def)

lemma digits_1_3_two:
  assumes "is_digit x" and "is_digit y" and "r = [] \<or> \<not> is_digit (hd r)"
  shows "\<exists>more. digits_1_3 (x # y # r) = ([x, y], r) # more"
  using assms by (cases r) (simp_all add: digits_1_3_def)

lemma digits_1_3_three:
  assumes "is_digit x" and "is_digit y" and "is_digit z"
  shows "\<exists>more. digits_1_3 (x # y # z # r) = ([x, y, z], r) # more"
  using assms by (simp add: digits_1_3_def)

lemma digits_1_3_first:
  assumes "octet a" and "r = [] \<or> \<not> is_digit (hd r)"
  shows "\<exists>more. digits_1_3 (a @ r) = (a, r) # more"
  using octet_shape [OF assms(1)]
proof (elim disjE exE conjE)
  fix x assume "a = [x]" "is_digit x"
  then show ?thesis using digits_1_3_one [of x r] assms(2) by simp
next
  fix x y assume "a = [x, y]" "is_digit x" "is_digit y"
  then show ?thesis using digits_1_3_two [of x y r] assms(2) by simp
next
  fix x y z assume "a = [x, y, z]" "is_digit x" "is_digit y" "is_digit z"
  then show ?thesis using digits_1_3_three [of x y z r] by simp
qed

lemma ipv4re_at_octets:
  assumes "octet a" and "octet b" and "octet c" and "octet d"
  shows "\<exists>more. ipv4re_at (a @ CHR ''.'' # b @ CHR ''.'' # c @ CHR ''.'' # d)
           = (a, b, c, d) # more"
proof -
  obtain m1 where m1: "digits_1_3 (a @ CHR ''.'' # b @ CHR ''.'' # c @ CHR ''.'' # d)
      = (a, CHR ''.'' # b @ CHR ''.'' # c @ CHR ''.'' # d) # m1"
    using digits_1_3_first [OF assms(1), of "CHR ''.'' # b @ CHR ''.'' # c @ CHR ''.'' # d"]
    by (auto simp: dot_is_no_digit)
  obtain m2 where m2: "digits_1_3 (b @ CHR ''.'' # c @ CHR ''.'' # d)
      = (b, CHR ''.'' # c @ CHR ''.'' # d) # m2"
    using digits_1_3_first [OF assms(2), of "CHR ''.'' # c @ CHR ''.'' # d"]
    by (auto simp: dot_is_no_digit)
  obtain m3 where m3: "digits_1_3 (c @ CHR ''.'' # d) = (c, CHR ''.'' # d) # m3"
    using digits_1_3_first [OF assms(3), of "CHR ''.'' # d"]
    by (auto simp: dot_is_no_digit)
  obtain m4 where m4: "digits_1_3 d = (d, []) # m4"
    using digits_1_3_first [OF assms(4), of "[]"] by auto
  show ?thesis
    unfolding ipv4re_at_def by (simp add: m1 m2 m3 m4)
qed

lemma ipv4re_match_octets:
  assumes "octet a" and "octet b" and "octet c" and "octet d"
  shows "ipv4re_match (a @ CHR ''.'' # b @ CHR ''.'' # c @ CHR ''.'' # d) = Some (a, b, c, d)"
proof -
  from ipv4re_at_octets [OF assms] obtain more where
    "ipv4re_at (a @ CHR ''.'' # b @ CHR ''.'' # c @ CHR ''.'' # d) = (a, b, c, d) # more"
    by blast
  then show ?thesis
    unfolding ipv4re_match_def by (intro regex_first_here) simp
qed

lemma isIp_v4_split:
  assumes "isIp_v4 addr"
  obtains a b c d where "split_on (CHR ''.'') addr = [a, b, c, d]"
    and "octet a" and "octet b" and "octet c" and "octet d"
  using assms by (auto simp: isIp_v4_def split: list.splits)

lemma isPrivate_v4:
  assumes "split_on (CHR ''.'') addr = [a, b, c, d]"
    and "octet a" and "octet b" and "octet c" and "octet d"
  shows "isPrivate v6 addr =
           Inr (Number a = 10 \<or> (Number a = 172 \<and> 16 \<le> Number b \<and> Number b \<le> 31)
                \<or> (Number a = 192 \<and> Number b = 168))"
proof -
  have v4: "isIp_v4 addr" using assms by (simp add: isIp_v4_def)
  have "addr = a @ CHR ''.'' # b @ CHR ''.'' # c @ CHR ''.'' # d"
    using assms(1) by (rule split_on_four)
  then have m: "ipv4re_match addr = Some (a, b, c, d)"
    using ipv4re_match_octets [OF assms(2-5)] by simp
  have run: "isPrivate v6 addr =
      (if a = ''10'' then Inr True
       else if a = ''172'' then Inr (16 \<le> Number b \<and> Number b \<le> 31)
       else Inr (a = ''192'' \<and> b = ''168''))"
    by (simp add: isPrivate_def v4 m Let_def)
  show ?thesis
    unfolding run octet_eq_literal [OF assms(2)] octet_eq_literal(4) [OF assms(3)]
    by auto
qed

lemma lower_char_f: "lower_char x = CHR ''f'' \<longleftrightarrow> x = CHR ''f'' \<or> x = CHR ''F''"
  by (auto simp: lower_char_def split: if_splits)

lemma lower_char_d: "lower_char x = CHR ''d'' \<longleftrightarrow> x = CHR ''d'' \<or> x = CHR ''D''"
  by (auto simp: lower_char_def split: if_splits)

lemma startsWith_fd:
  "startsWith (toLowerCase addr) ''fd'' \<longleftrightarrow>
     (\<exists>x y rest. addr = x # y # rest \<and> x \<in> {CHR ''f'', CHR ''F''} \<and> y \<in> {CHR ''d'', CHR ''D''})"
proof (cases addr)
  case Nil
  then show ?thesis by (simp add: startsWith_def toLowerCase_def)
next
  case (Cons x t)
  show ?thesis
  proof (cases t)
    case Nil
    with Cons show ?thesis by (simp add: startsWith_def toLowerCase_def)
  next
    case (Cons y rest)
    with \<open>addr = x # t\<close> show ?thesis
      by (simp add: startsWith_def toLowerCase_def lower_char_f lower_char_d)
  qed
qed

text \<open>
  Claim C9: for a valid IPv4 address isPrivate returns true iff the first octet is 10, or
  the first octet is 172 and the second is in [16, 31], or the first two octets are 192
  and 168; for a valid IPv6 address it returns true iff the first two characters are \<open>fd\<close>
  in either case of the letters; for a string that is neither it throws the error \<open>is not
  an IP address\<close>. A valid IPv6 address is a string that \<open>isIp.v6\<close> accepts and \<open>isIp.v4\<close>
  does not.
\<close>

theorem isPrivate_classifies:
  "(isIp_v4 addr
      \<longrightarrow> isPrivate v6 addr =
            Inr (ipv4_octets addr ! 0 = 10
                 \<or> (ipv4_octets addr ! 0 = 172
                     \<and> 16 \<le> ipv4_octets addr ! 1 \<and> ipv4_octets addr ! 1 \<le> 31)
                 \<or> (ipv4_octets addr ! 0 = 192 \<and> ipv4_octets addr ! 1 = 168)))
   \<and> (\<not> isIp_v4 addr \<and> v6 addr
      \<longrightarrow> isPrivate v6 addr =
            Inr (\<exists>x y rest. addr = x # y # rest \<and> x \<in> {CHR ''f'', CHR ''F''}
                             \<and> y \<in> {CHR ''d'', CHR ''D''}))
   \<and> (\<not> isIp_v4 addr \<and> \<not> v6 addr
      \<longrightarrow> isPrivate v6 addr = Inl (Error (new_Error (addr @ '' is not an IP address''))))"
proof (intro conjI impI)
  assume "isIp_v4 addr"
  then obtain a b c d where split: "split_on (CHR ''.'') addr = [a, b, c, d]"
    and octets: "octet a" "octet b" "octet c" "octet d"
    by (rule isIp_v4_split)
  have "ipv4_octets addr ! 0 = Number a" and "ipv4_octets addr ! 1 = Number b"
    by (simp_all add: ipv4_octets_def split)
  then show "isPrivate v6 addr =
            Inr (ipv4_octets addr ! 0 = 10
                 \<or> (ipv4_octets addr ! 0 = 172
                     \<and> 16 \<le> ipv4_octets addr ! 1 \<and> ipv4_octets addr ! 1 \<le> 31)
                 \<or> (ipv4_octets addr ! 0 = 192 \<and> ipv4_octets addr ! 1 = 168))"
    using isPrivate_v4 [OF split octets, of v6] by simp
next
  assume "\<not> isIp_v4 addr \<and> v6 addr"
  then show "isPrivate v6 addr =
            Inr (\<exists>x y rest. addr = x # y # rest \<and> x \<in> {CHR ''f'', CHR ''F''}
                             \<and> y \<in> {CHR ''d'', CHR ''D''})"
    by (simp add: isPrivate_def startsWith_fd)
next
  assume "\<not> isIp_v4 addr \<and> \<not> v6 addr"
  then show "isPrivate v6 addr = Inl (Error (new_Error (addr @ '' is not an IP address'')))"
    by (simp add: isPrivate_def)
qed

theorem isPrivate_classifies_witness:
  "isIp_v4 ''172.16.0.1'' \<and> isPrivate has_colon ''172.16.0.1'' = Inr True
   \<and> isIp_v4 ''172.32.0.1'' \<and> isPrivate has_colon ''172.32.0.1'' = Inr False
   \<and> isIp_v4 ''9.9.9.9'' \<and> isPrivate has_colon ''9.9.9.9'' = Inr False
   \<and> \<not> isIp_v4 ''fd12:3456:789a:1::1'' \<and> has_colon ''fd12:3456:789a:1::1''
   \<and> isPrivate has_colon ''fd12:3456:789a:1::1'' = Inr True
   \<and> \<not> isIp_v4 ''example.com'' \<and> \<not> has_colon ''example.com''
   \<and> isPrivate has_colon ''example.com''
       = Inl (Error \<lparr>message = ''example.com is not an IP address'', code = None,
                errno = None, response = None, responseCode = None\<rparr>)"
proof -
  have v4: "isIp_v4 ''172.16.0.1''" "isIp_v4 ''172.32.0.1''" "isIp_v4 ''9.9.9.9''"
    by (simp_all add: isIp_v4_def is_digit_def)
  have not_v4: "\<not> isIp_v4 ''fd12:3456:789a:1::1''" "\<not> isIp_v4 ''example.com''"
    by (simp_all add: isIp_v4_def is_digit_def)
  have v6: "has_colon ''fd12:3456:789a:1::1''" "\<not> has_colon ''example.com''"
    by (simp_all add: has_colon_def)
  have octets: "ipv4_octets ''172.16.0.1'' = [172, 16, 0, 1]"
    "ipv4_octets ''172.32.0.1'' = [172, 32, 0, 1]"
    "ipv4_octets ''9.9.9.9'' = [9, 9, 9, 9]"
    by (simp_all add: ipv4_octets_def Number_def digit_value_def)
  have "isPrivate has_colon ''172.16.0.1'' = Inr True"
    using isPrivate_classifies [of "''172.16.0.1''" has_colon] v4(1) octets(1) by simp
  moreover have "isPrivate has_colon ''172.32.0.1'' = Inr False"
    using isPrivate_classifies [of "''172.32.0.1''" has_colon] v4(2) octets(2) by simp
  moreover have "isPrivate has_colon ''9.9.9.9'' = Inr False"
    using isPrivate_classifies [of "''9.9.9.9''" has_colon] v4(3) octets(3) by simp
  moreover have "isPrivate has_colon ''fd12:3456:789a:1::1'' = Inr True"
    using isPrivate_classifies [of "''fd12:3456:789a:1::1''" has_colon] not_v4(1) v6(1)
    by simp
  moreover have "isPrivate has_colon ''example.com''
       = Inl (Error \<lparr>message = ''example.com is not an IP address'', code = None,
                errno = None, response = None, responseCode = None\<rparr>)"
    using isPrivate_classifies [of "''example.com''" has_colon] not_v4(2) v6(2)
    by (simp add: new_Error_def)
  ultimately show ?thesis using v4 not_v4 v6 by simp
qed

text \<open>The cases of the repository's test of the address classifier.\<close>

lemma address_test_cases:
  "addressFromLiteral ''[127.0.0.1]'' = Inr ''127.0.0.1''"
  "addressFromLiteral ''[IPv6:::1]'' = Inr ''::1''"
  "isLoopback has_colon ''127.0.0.1'' = Inr True"
  "isLoopback has_colon ''192.168.0.1'' = Inr False"
  "isLoopback has_colon ''::1'' = Inr True"
  "isLoopback has_colon ''fd12:3456:789a:1::1'' = Inr False"
  "isPrivate has_colon ''10.0.0.1'' = Inr True"
  "isPrivate has_colon ''172.16.0.1'' = Inr True"
  "isPrivate has_colon ''192.168.0.1'' = Inr True"
  "isPrivate has_colon ''fd12:3456:789a:1::1'' = Inr True"
  "isPrivate has_colon ''9.9.9.9'' = Inr False"
  by (simp_all add: addressFromLiteral_def m6_at_def m4_at_def ci_eq_def lower_char_def
      isLoopback_def isPrivate_def isIp_v4_def is_digit_def ipv4re_match_def ipv4re_at_def
      digits_1_3_def has_colon_def startsWith_def toLowerCase_def Number_def digit_value_def)

end
